theory Spec2Isabelle
  imports Complex_Main "HOL-Library.Monad_Syntax"
begin

section \<open>Constants (ott\_plugin.h)\<close>

text \<open>
  Single- and double-precision values are modelled as real numbers: every arithmetic
  operation is exact, there is no rounding, and no value is ever replaced by an infinity
  or a NaN. The model gives the exact value of every expression; the C program holds
  that value only while its magnitude stays inside the range of the type. A result at or
  above \<open>2 ^ 1024\<close> in a double, or \<open>2 ^ 128\<close> in a float, is \<^verbatim>\<open>+inf\<close> in C, and from
  there on C computes with the infinity (\<^verbatim>\<open>inf * 0\<close> is NaN, \<^verbatim>\<open>exp(-inf)\<close> is 0) while
  the model goes on with the real number. A property about finiteness is therefore
  stated as a bound on the magnitude of the first value that leaves the range.

  The header writes the compression constants as hexadecimal integer literals
  (\<^verbatim>\<open>#define UNITY_GAIN 0x3ff0000000000000\<close>). C reads such a literal as an integer
  and converts it by value wherever it meets a double, so the constants below carry
  the integer values. The comments of the header read the same digits as bit patterns
  of doubles (1.0, 0.01, 36.0, ...). A theorem that depends on which of the two readings
  is taken says so.
\<close>

definition DELAY_BUFFER_SIZE :: nat where
  "DELAY_BUFFER_SIZE = 32768"

definition ENVELOPE_DECAY_RATE :: real where
  "ENVELOPE_DECAY_RATE = 249999994 / 10 ^ 13"

definition COMPRESSION_SCALING :: real where
  "COMPRESSION_SCALING = 519999981 / 10 ^ 9"

definition UPWARD_MULT_1 :: real where
  "UPWARD_MULT_1 = 227304697 / 10 ^ 8"

definition UPWARD_MULT_2 :: real where
  "UPWARD_MULT_2 = 927524984 / 10 ^ 9"

definition NOISE_FLOOR :: real where
  "NOISE_FLOOR = 1 / 10 ^ 25"

definition LOG_SCALE_FACTOR :: real where
  "LOG_SCALE_FACTOR = 4621079339221929769"  \<comment> \<open>0x40215f2ced384f29\<close>

definition UNITY_GAIN :: real where
  "UNITY_GAIN = 4607182418800017408"  \<comment> \<open>0x3ff0000000000000\<close>

definition MIN_GAIN_THRESHOLD :: real where
  "MIN_GAIN_THRESHOLD = 4576918229304087675"  \<comment> \<open>0x3f847ae147ae147b\<close>

definition MAX_COMPRESSION_RATIO :: real where
  "MAX_COMPRESSION_RATIO = 4630263366890291200"  \<comment> \<open>0x4042000000000000\<close>

definition NEGATIVE_THRESHOLD :: real where
  "NEGATIVE_THRESHOLD = - 4575938696385134592"  \<comment> \<open>-0x3f81000000000000\<close>

definition ENVELOPE_TIME_CONSTANT :: real where
  "ENVELOPE_TIME_CONSTANT = 4592960357756602402"  \<comment> \<open>0x3fbd791c5f888822\<close>


section \<open>Data model (ott\_plugin.h)\<close>

record BiquadFilter =
  b0 :: real
  b1 :: real
  state1 :: real
  state2 :: real
  coeff_a1 :: real
  coeff_a2 :: real
  coeff_b2 :: real
  input_store :: real
  intermediate :: real
  filter_output :: real  \<comment> \<open>the field \<^verbatim>\<open>output\<close>; the name is reserved in Isabelle\<close>
  processed_input :: real

record CompressorState =
  rms_smoother :: real
  rms_smoothing_coeff :: real
  log_envelope :: real
  threshold :: real
  ratio_state :: real
  gain_reduction :: real
  attack_coeff :: real
  release_coeff :: real
  release_time :: real
  upward_ratio :: real
  envelope_output :: real
  processed_envelope :: real
  linear_coeff :: real
  knee_coeff :: real

text \<open>
  Arrays of fixed size inside the struct (\<^verbatim>\<open>bandControls[3]\<close>, \<^verbatim>\<open>switches[6]\<close>,
  \<^verbatim>\<open>crossoverFilters[6]\<close>, ...) are functions from the index; the code only ever
  uses indices inside the array. A parameter smoother (\<^verbatim>\<open>void*\<close> to two floats) is
  the pair (current value, coefficient). The heap buffers \<^verbatim>\<open>bandBuffers\<close> and
  \<^verbatim>\<open>delayBuffers\<close> are lists of sample lists, \<open>None\<close> being the null pointer. The
  preset area is addressed in floats: byte offset \<open>slot * 0x6c + 0x138\<close> is float
  index \<open>slot * 27 + 78\<close>.
\<close>

record OTTPlugin =
  bypass :: bool
  advancedMode :: bool
  needsUpdate :: bool
  inputChannels :: nat
  outputChannels :: nat
  inputChannelIndex :: nat
  outputChannelIndex :: nat
  peakEnvelopeLeft :: real
  peakEnvelopeRight :: real
  depth :: real
  timeControl :: real
  upwardRatioRaw :: real
  upwardRatio :: real
  downwardRatioRaw :: real
  downwardRatio :: real
  currentGain :: real
  finalGain :: real
  bandControls :: "nat \<Rightarrow> real"
  bandGains :: "nat \<Rightarrow> real"
  bandGainsDoubled :: "nat \<Rightarrow> real"
  switches :: "nat \<Rightarrow> bool"
  additionalControl1 :: real
  additionalControl2 :: real
  depthSmoother :: "real \<times> real"
  upwardSmoother :: "real \<times> real"
  outputSmoother :: "real \<times> real"
  crossoverFilters :: "nat \<Rightarrow> BiquadFilter"
  bandBuffers :: "real list list option"
  delayBuffers :: "real list list option"
  compressorLow :: CompressorState
  compressorMid :: CompressorState
  compressorHigh :: CompressorState
  bufferIndex :: nat
  bufferOffset :: nat
  writeIndex :: nat
  lowBandGain :: real
  midBandGain :: real
  highBandGain :: real
  compressorStates :: "nat \<Rightarrow> real"
  currentPresetSlot :: nat
  presetData :: "nat \<Rightarrow> real"


section \<open>Biquad filter (ott\_filters.c)\<close>

definition ProcessBiquadFilter :: "BiquadFilter \<Rightarrow> real \<Rightarrow> BiquadFilter" where
  "ProcessBiquadFilter f inp =
     (let w_n_minus_2 = state2 f;
          w_n_minus_1 = state1 f;
          temp1 = w_n_minus_1 * coeff_a1 f;
          pin = inp - w_n_minus_2;
          temp2 = pin * coeff_a2 f;
          feedback_term = pin * coeff_b2 f;
          inter = temp1 + temp2;
          out = w_n_minus_1 * coeff_a2 f + w_n_minus_2 + feedback_term
      in f\<lparr>input_store := inp, processed_input := pin, intermediate := inter,
            filter_output := out,
            state1 := inter + inter - w_n_minus_1,
            state2 := out + out - w_n_minus_2\<rparr>)"

definition GetBiquadLowpass :: "BiquadFilter \<Rightarrow> real" where
  "GetBiquadLowpass f = filter_output f"

definition GetBiquadHighpass :: "BiquadFilter \<Rightarrow> real" where
  "GetBiquadHighpass f = input_store f - intermediate f * b1 f - filter_output f"

definition CalculateBiquadCoefficients :: "BiquadFilter \<Rightarrow> real \<Rightarrow> real \<Rightarrow> BiquadFilter" where
  "CalculateBiquadCoefficients f frequency sampleRate =
     (let normalizedFreq = frequency * pi / sampleRate;
          tan_half_freq = tan normalizedFreq;
          reciprocal = 1 / tan_half_freq;
          denominator = 1 / ((reciprocal + tan_half_freq) * tan_half_freq + 1);
          a2 = denominator * tan_half_freq
      in f\<lparr>coeff_a1 := reciprocal, coeff_a2 := a2, coeff_b2 := a2 * tan_half_freq,
            b0 := 1, b1 := denominator\<rparr>)"

definition InitializeBiquadFilter :: "BiquadFilter \<Rightarrow> BiquadFilter" where
  "InitializeBiquadFilter f =
     f\<lparr>state1 := 0, state2 := 0, input_store := 0, intermediate := 0, filter_output := 0,
       processed_input := 0,
       b0 := 1, b1 := 0, coeff_a1 := 0, coeff_a2 := 0, coeff_b2 := 0\<rparr>"

text \<open>The loop \<^verbatim>\<open>for (i = 0; i < 6; i++) InitializeBiquadFilter(&crossoverFilters[i])\<close>.\<close>

definition init_all_filters :: "(nat \<Rightarrow> BiquadFilter) \<Rightarrow> (nat \<Rightarrow> BiquadFilter)" where
  "init_all_filters cf = fold (\<lambda>i c. c(i := InitializeBiquadFilter (c i))) [0..<6] cf"

definition SetupOTTCrossoverFilters :: "OTTPlugin \<Rightarrow> real \<Rightarrow> OTTPlugin" where
  "SetupOTTCrossoverFilters p sampleRate =
     (let lowMidCrossover = 200;
          midHighCrossover = 2000;
          cf = init_all_filters (crossoverFilters p);
          cf = cf(0 := CalculateBiquadCoefficients (cf 0) lowMidCrossover sampleRate);
          cf = cf(1 := CalculateBiquadCoefficients (cf 1) lowMidCrossover sampleRate);
          cf = cf(2 := CalculateBiquadCoefficients (cf 2) midHighCrossover sampleRate);
          cf = cf(3 := CalculateBiquadCoefficients (cf 3) midHighCrossover sampleRate);
          cf = cf(4 := CalculateBiquadCoefficients (cf 4) midHighCrossover sampleRate);
          cf = cf(5 := CalculateBiquadCoefficients (cf 5) midHighCrossover sampleRate)
      in p\<lparr>crossoverFilters := cf\<rparr>)"


section \<open>Compression engine (ott\_compression.c)\<close>

definition InitializeCompressor :: "CompressorState \<Rightarrow> CompressorState" where
  "InitializeCompressor c =
     c\<lparr>rms_smoother := 0, rms_smoothing_coeff := 1 / 10, log_envelope := 0,
       threshold := - 20, ratio_state := 0, gain_reduction := 0,
       attack_coeff := 1 / 10, release_coeff := 1 / 100, release_time := 1,
       upward_ratio := 2, envelope_output := 1, processed_envelope := 1,
       linear_coeff := 1, knee_coeff := 1 / 2\<rparr>"

text \<open>
  \<open>ProcessCompressorBand\<close> returns the processed output together with the updated
  compressor. In C, \<^verbatim>\<open>sqrt\<close> of a negative number and \<^verbatim>\<open>log\<close> of a non-positive
  number give NaN or an infinity; the real-valued \<open>sqrt\<close> and \<open>ln\<close> of HOL return
  some real number there, so the model says nothing about such calls. In C, \<^verbatim>\<open>exp\<close> of
  an argument above 709.79 is \<^verbatim>\<open>+inf\<close> and \<^verbatim>\<open>exp\<close> of an argument below -745.2 is 0;
  the real-valued \<open>exp\<close> is the exact exponential, always positive, so for such a call
  the model gives the value whose magnitude the double cannot hold.
\<close>

definition ProcessCompressorBand ::
  "CompressorState \<Rightarrow> real \<Rightarrow> real \<Rightarrow> real \<Rightarrow> real \<Rightarrow> real \<times> CompressorState" where
  "ProcessCompressorBand cst inputPower outputLevel bandGain timeConstant =
     (let rms = (rms_smoother cst - inputPower) * rms_smoothing_coeff cst + inputPower;
          cst = cst\<lparr>rms_smoother := rms\<rparr>;
          envelope_exp = exp (log_envelope cst * timeConstant);
          envelope_sqrt = sqrt (rms_smoother cst);
          envelope_sqrt = (if envelope_sqrt < 0 then - envelope_sqrt else envelope_sqrt);
          (final_gain_reduction, cst) =
            (if ratio_state cst \<le> NEGATIVE_THRESHOLD then
               (let threshold_value = threshold cst;
                    log_input = ln (envelope_sqrt + 1 / 10 ^ 30) * LOG_SCALE_FACTOR;
                    over_threshold = log_input - threshold_value;
                    max_reduction = max 0 over_threshold;
                    current_ratio = gain_reduction cst;
                    ratio_difference = current_ratio - max_reduction;
                    compression_coeff =
                      (if max_reduction \<le> current_ratio then release_coeff cst
                       else attack_coeff cst);
                    compressed_level = ratio_difference * compression_coeff + max_reduction;
                    cst = cst\<lparr>gain_reduction := compressed_level\<rparr>
                in if compressed_level \<le> threshold_value then
                     (let release_factor = release_time cst - UNITY_GAIN;
                          upward_gain = release_factor * compressed_level * timeConstant;
                          fgr = exp upward_gain
                      in (if fgr \<le> MIN_GAIN_THRESHOLD then MIN_GAIN_THRESHOLD else fgr, cst))
                   else
                     (let attack_factor = compressed_level - threshold_value;
                          downward_gain = attack_factor * timeConstant;
                          gain_multiplier = exp downward_gain;
                          upward_factor = gain_multiplier * upward_ratio cst;
                          cst = cst\<lparr>processed_envelope := exp downward_gain\<rparr>;
                          fgr = (if upward_factor \<le> MAX_COMPRESSION_RATIO
                                 then upward_factor * timeConstant
                                 else MAX_COMPRESSION_RATIO * timeConstant)
                      in (exp fgr, cst)))
             else
               (let linear_threshold = envelope_exp;
                    pin = (if envelope_sqrt \<le> linear_threshold
                           then knee_coeff cst * linear_threshold
                           else linear_coeff cst * (envelope_sqrt - linear_threshold)
                                  + linear_threshold);
                    min_processing_level = 1 / 10 ^ 30;
                    final_level = (if pin \<ge> min_processing_level then pin
                                   else min_processing_level);
                    log_processed = ln (pin + 1 / 10 ^ 30) * LOG_SCALE_FACTOR;
                    log_final = ln (final_level + 1 / 10 ^ 30) * LOG_SCALE_FACTOR;
                    cst = cst\<lparr>log_envelope := log_final\<rparr>;
                    threshold_diff = log_processed - threshold cst
                in if threshold_diff \<le> 0 then
                     (let expansion_gain = threshold_diff * timeConstant;
                          cst = cst\<lparr>processed_envelope := exp expansion_gain\<rparr>;
                          release_gain = release_time cst - UNITY_GAIN;
                          final_expansion = release_gain * threshold_diff * timeConstant;
                          fgr = exp final_expansion
                      in (if fgr \<le> MIN_GAIN_THRESHOLD then MIN_GAIN_THRESHOLD else fgr, cst))
                   else
                     (if threshold_diff \<le> - NEGATIVE_THRESHOLD
                      then (exp (threshold_diff * timeConstant), cst)
                      else (MIN_GAIN_THRESHOLD, cst))));
          cst = cst\<lparr>envelope_output := final_gain_reduction\<rparr>
      in (final_gain_reduction * outputLevel * bandGain, cst))"

definition SetCompressorParameters ::
  "CompressorState \<Rightarrow> real \<Rightarrow> real \<Rightarrow> real \<Rightarrow> real \<Rightarrow> real \<Rightarrow> CompressorState" where
  "SetCompressorParameters cst thr ratio attack release upward =
     cst\<lparr>threshold := thr, ratio_state := ratio, attack_coeff := attack,
          release_coeff := release, upward_ratio := upward,
          rms_smoothing_coeff := min (1 / 2) (attack * 10)\<rparr>"

definition SetCompressorRatio :: "CompressorState \<Rightarrow> real \<Rightarrow> CompressorState" where
  "SetCompressorRatio cst ratio =
     (if ratio > 1
      then cst\<lparr>ratio_state := ratio, attack_coeff := (1 / 10) / ratio,
                release_coeff := (1 / 100) / ratio\<rparr>
      else cst\<lparr>ratio_state := ratio, attack_coeff := (1 / 10) * ratio,
                release_coeff := (1 / 100) * ratio\<rparr>)"

definition IsCompressorActive :: "CompressorState \<Rightarrow> bool" where
  "IsCompressorActive cst = (envelope_output cst < 95 / 100)"


section \<open>Parameters (ott\_parameters.c)\<close>

definition CalculateCompressionRatio :: "real \<Rightarrow> real" where
  "CalculateCompressionRatio vstValue =
     (if vstValue > 1 / 2 then (vstValue - 1 / 2) * 16 + 1 else vstValue * 2)"

definition ConvertBooleanParameter :: "real \<Rightarrow> bool" where
  "ConvertBooleanParameter vstValue = (vstValue \<noteq> 0)"

text \<open>
  \<open>OTT_SetParameter\<close>: the bounds check, the clamp \<^verbatim>\<open>fmaxf(0, fminf(1, value))\<close>, and
  the \<^verbatim>\<open>switch\<close> over the index; \<open>store k\<close> is the write \<^verbatim>\<open>presetStorage[k] = value\<close>.
\<close>

definition OTT_SetParameter :: "OTTPlugin \<Rightarrow> int \<Rightarrow> real \<Rightarrow> OTTPlugin" where
  "OTT_SetParameter p parameterIndex v =
     (if parameterIndex < 0 \<or> parameterIndex > 19 then p
      else
        (let val = max 0 (min 1 v);
             base = currentPresetSlot p * 27 + 78;
             store = (\<lambda>k. (presetData p)(base + k := val))
         in if parameterIndex = 0 then
              p\<lparr>depth := val, presetData := store 0, needsUpdate := True\<rparr>
            else if parameterIndex = 1 then
              p\<lparr>timeControl := val, presetData := store 1, needsUpdate := True\<rparr>
            else if parameterIndex = 2 then
              p\<lparr>upwardRatioRaw := val, presetData := store 2,
                upwardRatio := CalculateCompressionRatio val, needsUpdate := True\<rparr>
            else if parameterIndex = 3 then
              p\<lparr>downwardRatioRaw := val, presetData := store 3,
                downwardRatio := CalculateCompressionRatio val, needsUpdate := True\<rparr>
            else if parameterIndex = 4 then
              p\<lparr>advancedMode := ConvertBooleanParameter val, presetData := store 4,
                needsUpdate := True\<rparr>
            else if parameterIndex \<le> 7 then
              (let bandIndex = nat (parameterIndex - 5)
               in p\<lparr>bandControls := (bandControls p)(bandIndex := val),
                    presetData := store (nat parameterIndex), needsUpdate := True\<rparr>)
            else if parameterIndex \<le> 10 then
              (let gainIndex = nat (parameterIndex - 8);
                   p = p\<lparr>bandGains := (bandGains p)(gainIndex := val),
                         bandGainsDoubled := (bandGainsDoubled p)(gainIndex := val * 2),
                         presetData := store (nat parameterIndex), needsUpdate := True\<rparr>
               in if gainIndex = 0 then p\<lparr>lowBandGain := val\<rparr>
                  else if gainIndex = 1 then p\<lparr>midBandGain := val\<rparr>
                  else if gainIndex = 2 then p\<lparr>highBandGain := val\<rparr>
                  else p)
            else if parameterIndex \<le> 16 then
              (let switchIndex = nat (parameterIndex - 11)
               in p\<lparr>switches := (switches p)(switchIndex := ConvertBooleanParameter val),
                    presetData := store (nat parameterIndex), needsUpdate := True\<rparr>)
            else if parameterIndex = 17 then
              p\<lparr>additionalControl1 := val, presetData := store 17, needsUpdate := True\<rparr>
            else if parameterIndex = 18 then
              p\<lparr>additionalControl2 := val, presetData := store 18, needsUpdate := True\<rparr>
            else
              p\<lparr>bypass := ConvertBooleanParameter val, presetData := store 25\<rparr>))"

definition OTT_GetParameter :: "OTTPlugin \<Rightarrow> int \<Rightarrow> real" where
  "OTT_GetParameter p parameterIndex =
     (if parameterIndex = 0 then depth p
      else if parameterIndex = 1 then timeControl p
      else if parameterIndex = 2 then upwardRatioRaw p
      else if parameterIndex = 3 then downwardRatioRaw p
      else if parameterIndex = 4 then (if advancedMode p then 1 else 0)
      else if 5 \<le> parameterIndex \<and> parameterIndex \<le> 7 then
        bandControls p (nat (parameterIndex - 5))
      else if 8 \<le> parameterIndex \<and> parameterIndex \<le> 10 then
        bandGains p (nat (parameterIndex - 8))
      else if 11 \<le> parameterIndex \<and> parameterIndex \<le> 16 then
        (if switches p (nat (parameterIndex - 11)) then 1 else 0)
      else if parameterIndex = 17 then additionalControl1 p
      else if parameterIndex = 18 then additionalControl2 p
      else if parameterIndex = 19 then (if bypass p then 1 else 0)
      else 0)"

text \<open>The column \<^verbatim>\<open>defaultValue\<close> of the table \<^verbatim>\<open>OTT_PARAMETERS\<close>.\<close>

definition OTT_GetParameterDefault :: "int \<Rightarrow> real" where
  "OTT_GetParameterDefault index =
     (if 0 \<le> index \<and> index < 20 then
        (if index = 4 \<or> (11 \<le> index \<and> index \<le> 16) \<or> index = 19 then 0 else 1 / 2)
      else 0)"

definition OTT_InitializeParametersToDefaults :: "OTTPlugin \<Rightarrow> OTTPlugin" where
  "OTT_InitializeParametersToDefaults p =
     fold (\<lambda>i q. OTT_SetParameter q (int i) (OTT_GetParameterDefault (int i))) [0..<20] p"


section \<open>Plugin lifecycle (ott\_main.c)\<close>

text \<open>The struct after \<^verbatim>\<open>memset(plugin, 0, sizeof(OTTPlugin))\<close>.\<close>

definition zero_filter :: BiquadFilter where
  "zero_filter = \<lparr>b0 = 0, b1 = 0, state1 = 0, state2 = 0, coeff_a1 = 0, coeff_a2 = 0,
     coeff_b2 = 0, input_store = 0, intermediate = 0, filter_output = 0,
     processed_input = 0\<rparr>"

definition zero_compressor :: CompressorState where
  "zero_compressor = \<lparr>rms_smoother = 0, rms_smoothing_coeff = 0, log_envelope = 0,
     threshold = 0, ratio_state = 0, gain_reduction = 0, attack_coeff = 0,
     release_coeff = 0, release_time = 0, upward_ratio = 0, envelope_output = 0,
     processed_envelope = 0, linear_coeff = 0, knee_coeff = 0\<rparr>"

definition zero_plugin :: OTTPlugin where
  "zero_plugin = \<lparr>bypass = False, advancedMode = False, needsUpdate = False,
     inputChannels = 0, outputChannels = 0, inputChannelIndex = 0, outputChannelIndex = 0,
     peakEnvelopeLeft = 0, peakEnvelopeRight = 0, depth = 0, timeControl = 0,
     upwardRatioRaw = 0, upwardRatio = 0, downwardRatioRaw = 0, downwardRatio = 0,
     currentGain = 0, finalGain = 0, bandControls = (\<lambda>_. 0), bandGains = (\<lambda>_. 0),
     bandGainsDoubled = (\<lambda>_. 0), switches = (\<lambda>_. False), additionalControl1 = 0,
     additionalControl2 = 0, depthSmoother = (0, 0), upwardSmoother = (0, 0),
     outputSmoother = (0, 0), crossoverFilters = (\<lambda>_. zero_filter),
     bandBuffers = None, delayBuffers = None, compressorLow = zero_compressor,
     compressorMid = zero_compressor, compressorHigh = zero_compressor,
     bufferIndex = 0, bufferOffset = 0, writeIndex = 0, lowBandGain = 0,
     midBandGain = 0, highBandGain = 0, compressorStates = (\<lambda>_. 0),
     currentPresetSlot = 0, presetData = (\<lambda>_. 0)\<rparr>"

text \<open>
  \<open>OTT_Initialize\<close>, every allocation succeeding: \<^verbatim>\<open>calloc\<close> gives zeroed buffers of
  \<open>DELAY_BUFFER_SIZE\<close> samples, six band buffers and eight delay buffers.
\<close>

definition OTT_Initialize :: "real \<Rightarrow> OTTPlugin" where
  "OTT_Initialize sampleRate =
     (let p = zero_plugin;
          p = p\<lparr>inputChannels := 2, outputChannels := 2, inputChannelIndex := 0,
                outputChannelIndex := 0, bypass := False, advancedMode := False,
                needsUpdate := True, peakEnvelopeLeft := 0, peakEnvelopeRight := 0\<rparr>;
          p = p\<lparr>bandBuffers := Some (replicate 6 (replicate DELAY_BUFFER_SIZE 0)),
                delayBuffers := Some (replicate 8 (replicate DELAY_BUFFER_SIZE 0))\<rparr>;
          p = p\<lparr>crossoverFilters := init_all_filters (crossoverFilters p)\<rparr>;
          p = SetupOTTCrossoverFilters p sampleRate;
          p = p\<lparr>compressorLow := InitializeCompressor (compressorLow p),
                compressorMid := InitializeCompressor (compressorMid p),
                compressorHigh := InitializeCompressor (compressorHigh p)\<rparr>;
          p = p\<lparr>compressorLow :=
                  SetCompressorParameters (compressorLow p) (- 20) 2 (1 / 10) (1 / 100) 2,
                compressorMid :=
                  SetCompressorParameters (compressorMid p) (- 15) 3 (8 / 100) (15 / 1000) (5 / 2),
                compressorHigh :=
                  SetCompressorParameters (compressorHigh p) (- 10) 4 (5 / 100) (2 / 100) 3\<rparr>;
          p = p\<lparr>depthSmoother := (0, 1 / 100), upwardSmoother := (0, 1 / 100),
                outputSmoother := (1, 5 / 1000)\<rparr>;
          p = p\<lparr>currentPresetSlot := 0, presetData := (\<lambda>_. 0)\<rparr>;
          p = OTT_InitializeParametersToDefaults p;
          p = p\<lparr>depth := 1 / 2, timeControl := 3 / 10, upwardRatio := 6 / 10,
                downwardRatio := 7 / 10, lowBandGain := 1 / 2, midBandGain := 1 / 2,
                highBandGain := 1 / 2\<rparr>;
          p = p\<lparr>bufferIndex := 0, bufferOffset := 0, writeIndex := 0\<rparr>
      in p\<lparr>compressorStates := (\<lambda>_. 0)\<rparr>)"

text \<open>
  \<^verbatim>\<open>memset(buffers[k], 0, DELAY_BUFFER_SIZE * sizeof(float))\<close> for \<open>k\<close> below the count:
  a buffer that is missing or shorter than \<open>DELAY_BUFFER_SIZE\<close> is a memory fault,
  \<open>None\<close>.
\<close>

definition clear_buffer :: "real list \<Rightarrow> real list option" where
  "clear_buffer buf =
     (if DELAY_BUFFER_SIZE \<le> length buf
      then Some (replicate DELAY_BUFFER_SIZE 0 @ drop DELAY_BUFFER_SIZE buf)
      else None)"

fun clear_buffers :: "nat \<Rightarrow> real list list \<Rightarrow> real list list option" where
  "clear_buffers 0 bufs = Some bufs"
| "clear_buffers (Suc k) bufs =
     (case clear_buffers k bufs of
        None \<Rightarrow> None
      | Some bufs' \<Rightarrow>
          if k < length bufs' then
            (case clear_buffer (bufs' ! k) of
               None \<Rightarrow> None
             | Some b \<Rightarrow> Some (bufs'[k := b]))
          else None)"

definition OTT_Reset :: "OTTPlugin \<Rightarrow> OTTPlugin option" where
  "OTT_Reset p =
     (let p = p\<lparr>crossoverFilters := init_all_filters (crossoverFilters p)\<rparr>;
          p = p\<lparr>compressorLow := InitializeCompressor (compressorLow p),
                compressorMid := InitializeCompressor (compressorMid p),
                compressorHigh := InitializeCompressor (compressorHigh p)\<rparr>;
          p = p\<lparr>peakEnvelopeLeft := 0, peakEnvelopeRight := 0\<rparr>
      in case (case bandBuffers p of None \<Rightarrow> Some None
               | Some bb \<Rightarrow> map_option Some (clear_buffers 6 bb)) of
           None \<Rightarrow> None
         | Some bb' \<Rightarrow>
             (case (case delayBuffers p of None \<Rightarrow> Some None
                    | Some db \<Rightarrow> map_option Some (clear_buffers 8 db)) of
                None \<Rightarrow> None
              | Some db' \<Rightarrow>
                  Some (p\<lparr>bandBuffers := bb', delayBuffers := db', bufferIndex := 0,
                          writeIndex := 0, needsUpdate := True\<rparr>)))"


section \<open>Audio processing (ott\_processing.c)\<close>

text \<open>
  A channel array \<^verbatim>\<open>float**\<close> is a list of channel pointers; a channel pointer is
  \<open>None\<close> when null and a list of samples otherwise. Every access is checked: an index
  outside the array, a null channel and a sample index outside the buffer are memory
  faults, and the operation returns \<open>None\<close>. Input and output buffers are separate
  values (no aliasing).
\<close>

type_synonym buffer = "real list option"
type_synonym channels = "buffer list"

definition chan_ptr :: "channels \<Rightarrow> nat \<Rightarrow> buffer option" where
  "chan_ptr cs ch = (if ch < length cs then Some (cs ! ch) else None)"

definition rd_sample :: "channels \<Rightarrow> nat \<Rightarrow> nat \<Rightarrow> real option" where
  "rd_sample cs ch i =
     (case chan_ptr cs ch of
        Some (Some xs) \<Rightarrow> if i < length xs then Some (xs ! i) else None
      | _ \<Rightarrow> None)"

definition wr_sample :: "channels \<Rightarrow> nat \<Rightarrow> nat \<Rightarrow> real \<Rightarrow> channels option" where
  "wr_sample cs ch i v =
     (case chan_ptr cs ch of
        Some (Some xs) \<Rightarrow> if i < length xs then Some (cs[ch := Some (xs[i := v])]) else None
      | _ \<Rightarrow> None)"

definition rd_buf :: "real list list \<Rightarrow> nat \<Rightarrow> nat \<Rightarrow> real option" where
  "rd_buf bufs k i =
     (if k < length bufs \<and> i < length (bufs ! k) then Some (bufs ! k ! i) else None)"

definition wr_buf :: "real list list \<Rightarrow> nat \<Rightarrow> nat \<Rightarrow> real \<Rightarrow> real list list option" where
  "wr_buf bufs k i v =
     (if k < length bufs \<and> i < length (bufs ! k) then Some (bufs[k := (bufs ! k)[i := v]])
      else None)"

subsection \<open>Bypass\<close>

function copy_block :: "real list \<Rightarrow> real list \<Rightarrow> nat \<Rightarrow> nat \<Rightarrow> real list option" where
  "copy_block src dst i n =
     (if i < n then
        (if i < length src \<and> i < length dst
         then copy_block src (dst[i := src ! i]) (i + 1) n
         else None)
      else Some dst)"
  by pat_completeness auto
termination
  by (relation "measure (\<lambda>(src, dst, i, n). n - i)") auto

definition bypass_channel :: "channels \<Rightarrow> channels \<Rightarrow> nat \<Rightarrow> nat \<Rightarrow> channels option" where
  "bypass_channel ins outs ch n =
     (case chan_ptr ins ch of
        None \<Rightarrow> None
      | Some None \<Rightarrow> Some outs
      | Some (Some src) \<Rightarrow>
          (case chan_ptr outs ch of
             None \<Rightarrow> None
           | Some None \<Rightarrow> Some outs
           | Some (Some dst) \<Rightarrow>
               (case copy_block src dst 0 n of
                  None \<Rightarrow> None
                | Some dst' \<Rightarrow> Some (outs[ch := Some dst']))))"

definition bypass_copy :: "channels \<Rightarrow> channels \<Rightarrow> nat \<Rightarrow> channels option" where
  "bypass_copy ins outs n =
     (case bypass_channel ins outs 0 n of
        None \<Rightarrow> None
      | Some outs' \<Rightarrow> bypass_channel ins outs' 1 n)"

subsection \<open>Channel setup\<close>

definition channel_setup :: "OTTPlugin \<Rightarrow> channels \<Rightarrow> channels \<Rightarrow> OTTPlugin option" where
  "channel_setup p ins outs =
     (case (if inputChannels p = 2 then
              (case chan_ptr ins 1 of
                 None \<Rightarrow> None
               | Some b \<Rightarrow> Some (if b = None then p\<lparr>inputChannelIndex := 0\<rparr> else p))
            else Some p) of
        None \<Rightarrow> None
      | Some p \<Rightarrow>
          if outputChannels p = 2 then
            (case chan_ptr outs 1 of
               None \<Rightarrow> None
             | Some b \<Rightarrow> Some (if b = None then p\<lparr>outputChannelIndex := 0\<rparr> else p))
          else Some p)"

subsection \<open>Peak detection\<close>

definition peak_follow :: "real \<Rightarrow> real \<Rightarrow> real" where
  "peak_follow sample env =
     (if sample < env then
        (let e = env - ENVELOPE_DECAY_RATE in if e < 0 then 0 else e)
      else sample)"

text \<open>One sample of both channels; the envelopes are the pair (left, right).\<close>

definition peak_sample :: "channels \<Rightarrow> nat \<Rightarrow> nat \<Rightarrow> real \<times> real \<Rightarrow> (real \<times> real) option" where
  "peak_sample ins rc i env =
     (case rd_sample ins 0 i of
        None \<Rightarrow> None
      | Some leftSample \<Rightarrow>
          (case rd_sample ins rc i of
             None \<Rightarrow> None
           | Some rightSample \<Rightarrow>
               Some (peak_follow leftSample (fst env), peak_follow rightSample (snd env))))"

text \<open>The \<^verbatim>\<open>do ... while (sampleIdx < numSamples)\<close> loop of small blocks.\<close>

function peak_single ::
  "channels \<Rightarrow> nat \<Rightarrow> nat \<Rightarrow> nat \<Rightarrow> real \<times> real \<Rightarrow> (real \<times> real) option" where
  "peak_single ins rc n i env =
     (case peak_sample ins rc i env of
        None \<Rightarrow> None
      | Some env' \<Rightarrow> if i + 1 < n then peak_single ins rc n (i + 1) env' else Some env')"
  by pat_completeness auto
termination
  by (relation "measure (\<lambda>(ins, rc, n, i, env). n - i)") auto

text \<open>Four samples at once, \<^verbatim>\<open>do ... while (sampleIdx < numSamples - 3)\<close>.\<close>

definition peak_four :: "channels \<Rightarrow> nat \<Rightarrow> nat \<Rightarrow> real \<times> real \<Rightarrow> (real \<times> real) option" where
  "peak_four ins rc i env =
     (case peak_sample ins rc i env of
        None \<Rightarrow> None
      | Some e1 \<Rightarrow>
          (case peak_sample ins rc (i + 1) e1 of
             None \<Rightarrow> None
           | Some e2 \<Rightarrow>
               (case peak_sample ins rc (i + 2) e2 of
                  None \<Rightarrow> None
                | Some e3 \<Rightarrow> peak_sample ins rc (i + 3) e3)))"

function peak_quad ::
  "channels \<Rightarrow> nat \<Rightarrow> nat \<Rightarrow> nat \<Rightarrow> real \<times> real \<Rightarrow> (nat \<times> real \<times> real) option" where
  "peak_quad ins rc n i env =
     (case peak_four ins rc i env of
        None \<Rightarrow> None
      | Some env' \<Rightarrow>
          if int (i + 4) < int n - 3 then peak_quad ins rc n (i + 4) env'
          else Some (i + 4, env'))"
  by pat_completeness auto
termination
  by (relation "measure (\<lambda>(ins, rc, n, i, env). n - i)") auto

function peak_rest ::
  "channels \<Rightarrow> nat \<Rightarrow> nat \<Rightarrow> nat \<Rightarrow> real \<times> real \<Rightarrow> (real \<times> real) option" where
  "peak_rest ins rc n i env =
     (if i < n then
        (case peak_sample ins rc i env of
           None \<Rightarrow> None
         | Some env' \<Rightarrow> peak_rest ins rc n (i + 1) env')
      else Some env)"
  by pat_completeness auto
termination
  by (relation "measure (\<lambda>(ins, rc, n, i, env). n - i)") auto

definition peak_detection ::
  "channels \<Rightarrow> nat \<Rightarrow> nat \<Rightarrow> real \<times> real \<Rightarrow> (real \<times> real) option" where
  "peak_detection ins rc n env =
     (if n < 4 then
        (if n > 0 then peak_single ins rc n 0 env else Some env)
      else
        (case peak_quad ins rc n 0 env of
           None \<Rightarrow> None
         | Some (i, env') \<Rightarrow> peak_rest ins rc n i env'))"


subsection \<open>Filtering pass\<close>

text \<open>
  The loop \<^verbatim>\<open>for (band = 0; band < 6; band++) delayBuffers[band][bufferPos] =
  bandBuffers[band][sampleIdx]\<close>, the count being 6.
\<close>

fun copy_bands ::
  "nat \<Rightarrow> real list list \<Rightarrow> real list list \<Rightarrow> nat \<Rightarrow> nat \<Rightarrow> real list list option" where
  "copy_bands 0 bb db i pos = Some db"
| "copy_bands (Suc band) bb db i pos =
     (case copy_bands band bb db i pos of
        None \<Rightarrow> None
      | Some db' \<Rightarrow>
          (case rd_buf bb band i of
             None \<Rightarrow> None
           | Some v \<Rightarrow> wr_buf db' band pos v))"

text \<open>
  The tail shared by both modes: copy the six band samples and the two raw input
  samples to the delay buffers at \<open>bufferIndex\<close>, then advance the cursor.
\<close>

definition store_delay ::
  "OTTPlugin \<Rightarrow> real list list \<Rightarrow> real \<Rightarrow> real \<Rightarrow> nat \<Rightarrow> OTTPlugin option" where
  "store_delay p bb inL inR i =
     (case delayBuffers p of
        None \<Rightarrow> None
      | Some db \<Rightarrow>
          (let bufferPos = bufferIndex p
           in case copy_bands 6 bb db i bufferPos of
                None \<Rightarrow> None
              | Some db1 \<Rightarrow>
                  (case wr_buf db1 6 bufferPos inL of
                     None \<Rightarrow> None
                   | Some db2 \<Rightarrow>
                       (case wr_buf db2 7 bufferPos inR of
                          None \<Rightarrow> None
                        | Some db3 \<Rightarrow>
                            Some (p\<lparr>bandBuffers := Some bb, delayBuffers := Some db3,
                                    bufferIndex :=
                                      (if bufferIndex p + 1 \<ge> DELAY_BUFFER_SIZE then 0
                                       else bufferIndex p + 1)\<rparr>)))))"

text \<open>One iteration of the simple-mode loop.\<close>

definition simple_step :: "OTTPlugin \<Rightarrow> channels \<Rightarrow> nat \<Rightarrow> nat \<Rightarrow> OTTPlugin option" where
  "simple_step p ins rc i =
     (case (rd_sample ins 0 i, rd_sample ins rc i, bandBuffers p) of
        (Some inL, Some inR, Some bb) \<Rightarrow>
          (let smoothedDepth = (depth p - fst (depthSmoother p)) * snd (depthSmoother p)
                                 + fst (depthSmoother p);
               smoothedUpward = (upwardRatio p - fst (upwardSmoother p)) * snd (upwardSmoother p)
                                  + fst (upwardSmoother p);
               p = p\<lparr>depthSmoother := (smoothedDepth, snd (depthSmoother p)),
                     upwardSmoother := (smoothedUpward, snd (upwardSmoother p)),
                     currentGain := smoothedUpward\<rparr>;
               processingGain = smoothedDepth * COMPRESSION_SCALING + 1;
               leftProcessingGain = smoothedUpward * inL;
               rightProcessingGain = smoothedUpward * inR;
               cf = crossoverFilters p;
               cf = cf(0 := ProcessBiquadFilter (cf 0) leftProcessingGain);
               cf = cf(1 := ProcessBiquadFilter (cf 1) rightProcessingGain);
               cf = cf(2 := ProcessBiquadFilter (cf 2) (GetBiquadLowpass (cf 0)));
               cf = cf(3 := ProcessBiquadFilter (cf 3) (GetBiquadLowpass (cf 1)));
               lowL = GetBiquadLowpass (cf 2) * processingGain;
               lowR = GetBiquadLowpass (cf 3) * processingGain;
               cf = cf(4 := ProcessBiquadFilter (cf 4) leftProcessingGain);
               cf = cf(5 := ProcessBiquadFilter (cf 5) rightProcessingGain);
               highL = GetBiquadHighpass (cf 4) * processingGain;
               highR = GetBiquadHighpass (cf 5) * processingGain;
               p = p\<lparr>crossoverFilters := cf\<rparr>
           in case wr_buf bb 0 i lowL of
                None \<Rightarrow> None
              | Some bb1 \<Rightarrow>
                  (case wr_buf bb1 1 i lowR of
                     None \<Rightarrow> None
                   | Some bb2 \<Rightarrow>
                       (case wr_buf bb2 4 i highL of
                          None \<Rightarrow> None
                        | Some bb3 \<Rightarrow>
                            (case wr_buf bb3 5 i highR of
                               None \<Rightarrow> None
                             | Some bb4 \<Rightarrow> store_delay p bb4 inL inR i))))
      | _ \<Rightarrow> None)"

text \<open>
  One iteration of the advanced-mode loop. Its inner loop feeds the six filters, the
  even ones with the left input and the odd ones with the right input.
\<close>

definition advanced_filters ::
  "(nat \<Rightarrow> BiquadFilter) \<Rightarrow> real \<Rightarrow> real \<Rightarrow> (nat \<Rightarrow> BiquadFilter)" where
  "advanced_filters cf leftInput rightInput =
     fold (\<lambda>filterIdx c.
             c(filterIdx := ProcessBiquadFilter (c filterIdx)
                 (if filterIdx mod 2 = 0 then leftInput else rightInput)))
       [0..<6] cf"

definition advanced_step :: "OTTPlugin \<Rightarrow> channels \<Rightarrow> nat \<Rightarrow> nat \<Rightarrow> OTTPlugin option" where
  "advanced_step p ins rc i =
     (case (rd_sample ins 0 i, rd_sample ins rc i, bandBuffers p) of
        (Some inL, Some inR, Some bb) \<Rightarrow>
          (let smoothedDepth = (depth p - fst (depthSmoother p)) * snd (depthSmoother p)
                                 + fst (depthSmoother p);
               smoothedUpward = (upwardRatio p - fst (upwardSmoother p)) * snd (upwardSmoother p)
                                  + fst (upwardSmoother p);
               p = p\<lparr>depthSmoother := (smoothedDepth, snd (depthSmoother p)),
                     upwardSmoother := (smoothedUpward, snd (upwardSmoother p)),
                     currentGain := smoothedUpward\<rparr>;
               processingGain = smoothedDepth * COMPRESSION_SCALING + 1;
               upwardGain1 = smoothedUpward * UPWARD_MULT_1 + 1;
               upwardGain2 = smoothedUpward * UPWARD_MULT_2 + 1;
               leftInput = inL * currentGain p;
               rightInput = inR * currentGain p;
               cf = advanced_filters (crossoverFilters p) leftInput rightInput;
               p = p\<lparr>crossoverFilters := cf\<rparr>;
               lowLeft = GetBiquadLowpass (cf 0) * processingGain;
               lowRight = GetBiquadLowpass (cf 1) * processingGain;
               midLeft = GetBiquadHighpass (cf 2) * processingGain;
               midRight = GetBiquadHighpass (cf 3) * processingGain;
               highLeft = GetBiquadHighpass (cf 4) * processingGain;
               highRight = GetBiquadHighpass (cf 5) * processingGain
           in case wr_buf bb 0 i lowLeft of
                None \<Rightarrow> None
              | Some bb1 \<Rightarrow>
                  (case wr_buf bb1 1 i lowRight of
                     None \<Rightarrow> None
                   | Some bb2 \<Rightarrow>
                       (case wr_buf bb2 2 i midLeft of
                          None \<Rightarrow> None
                        | Some bb3 \<Rightarrow>
                            (case wr_buf bb3 3 i midRight of
                               None \<Rightarrow> None
                             | Some bb4 \<Rightarrow>
                                 (case wr_buf bb4 4 i highLeft of
                                    None \<Rightarrow> None
                                  | Some bb5 \<Rightarrow>
                                      (case wr_buf bb5 5 i highRight of
                                         None \<Rightarrow> None
                                       | Some bb6 \<Rightarrow> store_delay p bb6 inL inR i))))))
      | _ \<Rightarrow> None)"

text \<open>
  The filtering loop \<^verbatim>\<open>for (sampleIdx = 0; sampleIdx < numSamples; sampleIdx++)\<close>; the
  mode flag is read once, before the loop.
\<close>

function filter_loop ::
  "bool \<Rightarrow> OTTPlugin \<Rightarrow> channels \<Rightarrow> nat \<Rightarrow> nat \<Rightarrow> nat \<Rightarrow> OTTPlugin option" where
  "filter_loop adv p ins rc i n =
     (if i < n then
        (case (if adv then advanced_step p ins rc i else simple_step p ins rc i) of
           None \<Rightarrow> None
         | Some p' \<Rightarrow> filter_loop adv p' ins rc (i + 1) n)
      else Some p)"
  by pat_completeness auto
termination
  by (relation "measure (\<lambda>(adv, p, ins, rc, i, n). n - i)") auto

subsection \<open>Compression pass\<close>

definition compress_step ::
  "OTTPlugin \<Rightarrow> channels \<Rightarrow> nat \<Rightarrow> (OTTPlugin \<times> channels) option" where
  "compress_step p outs i =
     (let smoothedOutput = (finalGain p - fst (outputSmoother p)) * snd (outputSmoother p)
                             + fst (outputSmoother p);
          p = p\<lparr>outputSmoother := (smoothedOutput, snd (outputSmoother p)),
                finalGain := smoothedOutput\<rparr>;
          readIndex = writeIndex p
      in case delayBuffers p of
           None \<Rightarrow> None
         | Some db \<Rightarrow>
             (case (rd_buf db 0 readIndex, rd_buf db 1 readIndex, rd_buf db 2 readIndex,
                    rd_buf db 3 readIndex, rd_buf db 4 readIndex, rd_buf db 5 readIndex) of
                (Some lowLeft, Some lowRight, Some midLeft, Some midRight,
                 Some highLeft, Some highRight) \<Rightarrow>
                  (let lowPower = lowLeft * lowLeft + lowRight * lowRight + NOISE_FLOOR;
                       midPower = midLeft * midLeft + midRight * midRight + NOISE_FLOOR;
                       highPower = highLeft * highLeft + highRight * highRight + NOISE_FLOOR;
                       (lowGainReduction, cl) =
                         ProcessCompressorBand (compressorLow p) lowPower smoothedOutput
                           (lowBandGain p) ENVELOPE_TIME_CONSTANT;
                       (midGainReduction, cm) =
                         ProcessCompressorBand (compressorMid p) midPower smoothedOutput
                           (midBandGain p) ENVELOPE_TIME_CONSTANT;
                       (highGainReduction, ch) =
                         ProcessCompressorBand (compressorHigh p) highPower smoothedOutput
                           (highBandGain p) ENVELOPE_TIME_CONSTANT;
                       p = p\<lparr>compressorLow := cl, compressorMid := cm, compressorHigh := ch\<rparr>;
                       finalLeft = (lowLeft * lowGainReduction + midLeft * midGainReduction
                                      + highLeft * highGainReduction) * finalGain p;
                       finalRight = (lowRight * lowGainReduction + midRight * midGainReduction
                                       + highRight * highGainReduction) * finalGain p
                   in case wr_sample outs 0 i finalLeft of
                        None \<Rightarrow> None
                      | Some outs1 \<Rightarrow>
                          (case wr_sample outs1 (outputChannelIndex p) i finalRight of
                             None \<Rightarrow> None
                           | Some outs2 \<Rightarrow>
                               Some (p\<lparr>writeIndex :=
                                         (if writeIndex p + 1 \<ge> DELAY_BUFFER_SIZE then 0
                                          else writeIndex p + 1)\<rparr>, outs2)))
              | _ \<Rightarrow> None))"

function compress_loop ::
  "OTTPlugin \<Rightarrow> channels \<Rightarrow> nat \<Rightarrow> nat \<Rightarrow> (OTTPlugin \<times> channels) option" where
  "compress_loop p outs i n =
     (if i < n then
        (case compress_step p outs i of
           None \<Rightarrow> None
         | Some (p', outs') \<Rightarrow> compress_loop p' outs' (i + 1) n)
      else Some (p, outs))"
  by pat_completeness auto
termination
  by (relation "measure (\<lambda>(p, outs, i, n). n - i)") auto

subsection \<open>The processing call\<close>

text \<open>
  The read cursor of the compression pass: \<^verbatim>\<open>int readPos = currentBufferPos -
  numSamples; if (readPos < 0) readPos += DELAY_BUFFER_SIZE;\<close>, stored into the unsigned
  32-bit field \<^verbatim>\<open>writeIndex\<close>.
\<close>

definition read_position :: "nat \<Rightarrow> nat \<Rightarrow> nat" where
  "read_position currentBufferPos numSamples =
     (let readPos = int currentBufferPos - int numSamples;
          readPos = (if readPos < 0 then readPos + int DELAY_BUFFER_SIZE else readPos)
      in nat (readPos mod 2 ^ 32))"

definition store_meters :: "OTTPlugin \<Rightarrow> OTTPlugin" where
  "store_meters p =
     p\<lparr>compressorStates := (compressorStates p)
         (0 := envelope_output (compressorLow p) * lowBandGain p,
          1 := envelope_output (compressorMid p) * midBandGain p,
          2 := envelope_output (compressorHigh p) * highBandGain p,
          3 := rms_smoother (compressorLow p),
          4 := rms_smoother (compressorMid p),
          5 := rms_smoother (compressorHigh p))\<rparr>"

definition OTT_ProcessAudio ::
  "OTTPlugin \<Rightarrow> channels \<Rightarrow> channels \<Rightarrow> int \<Rightarrow> (OTTPlugin \<times> channels) option" where
  "OTT_ProcessAudio p ins outs sampleCount =
     (let numSamples = nat sampleCount
      in if bypass p then
           (case bypass_copy ins outs numSamples of
              None \<Rightarrow> None
            | Some outs' \<Rightarrow> Some (p, outs'))
         else
           (case channel_setup p ins outs of
              None \<Rightarrow> None
            | Some p1 \<Rightarrow>
                (let rightChannelIdx = inputChannelIndex p1
                 in case peak_detection ins rightChannelIdx numSamples
                           (peakEnvelopeLeft p1, peakEnvelopeRight p1) of
                      None \<Rightarrow> None
                    | Some (leftEnvelope, rightEnvelope) \<Rightarrow>
                        (let p2 = p1\<lparr>peakEnvelopeLeft := leftEnvelope,
                                      peakEnvelopeRight := rightEnvelope\<rparr>
                         in if sampleCount \<le> 0 then Some (p2, outs)
                            else
                              (case filter_loop (advancedMode p2) p2 ins rightChannelIdx 0
                                      numSamples of
                                 None \<Rightarrow> None
                               | Some p3 \<Rightarrow>
                                   (let p4 = p3\<lparr>writeIndex :=
                                                 read_position (bufferIndex p3) numSamples\<rparr>
                                    in case compress_loop p4 outs 0 numSamples of
                                         None \<Rightarrow> None
                                       | Some (p5, outs') \<Rightarrow>
                                           Some (store_meters p5, outs')))))))"

text \<open>
  The wrapper \<open>OTT_Process\<close>: the plugin pointer and the two channel arrays may be
  null (\<open>None\<close>); the result is the plugin and the output channels after the call.
\<close>

definition OTT_Process ::
  "OTTPlugin option \<Rightarrow> channels option \<Rightarrow> channels option \<Rightarrow> int
     \<Rightarrow> (OTTPlugin option \<times> channels option) option" where
  "OTT_Process plugin inputs outputs sampleCount =
     (case (plugin, inputs, outputs) of
        (Some p, Some ins, Some outs) \<Rightarrow>
          if sampleCount \<le> 0 then Some (plugin, outputs)
          else
            (case chan_ptr ins 0 of
               None \<Rightarrow> None
             | Some None \<Rightarrow> Some (plugin, outputs)
             | Some (Some in0) \<Rightarrow>
                 (case chan_ptr outs 0 of
                    None \<Rightarrow> None
                  | Some None \<Rightarrow> Some (plugin, outputs)
                  | Some (Some out0) \<Rightarrow>
                      (case OTT_ProcessAudio p ins outs sampleCount of
                         None \<Rightarrow> None
                       | Some (p', outs') \<Rightarrow> Some (Some p', Some outs'))))
      | _ \<Rightarrow> Some (plugin, outputs))"


section \<open>Predicates used by the properties\<close>

text \<open>The clamp of a parameter value to the unit interval, as the specification names it.\<close>

definition clamp01 :: "real \<Rightarrow> real" where
  "clamp01 v = max 0 (min 1 v)"

text \<open>The indices whose parameter is stored as a flag (\<open>ConvertBooleanParameter\<close>).\<close>

definition is_boolean_parameter :: "int \<Rightarrow> bool" where
  "is_boolean_parameter i = (i = 4 \<or> (11 \<le> i \<and> i \<le> 16) \<or> i = 19)"

text \<open>
  The buffers as \<open>OTT_Initialize\<close> allocates them: six band buffers and eight delay
  buffers of \<open>DELAY_BUFFER_SIZE\<close> samples each.
\<close>

definition buffers_shape :: "nat \<Rightarrow> real list list option \<Rightarrow> bool" where
  "buffers_shape m bufs =
     (case bufs of
        None \<Rightarrow> False
      | Some bs \<Rightarrow> map length bs = replicate m DELAY_BUFFER_SIZE)"

definition buffers_ok :: "OTTPlugin \<Rightarrow> bool" where
  "buffers_ok p = (buffers_shape 6 (bandBuffers p) \<and> buffers_shape 8 (delayBuffers p))"

definition filter_cleared :: "BiquadFilter \<Rightarrow> bool" where
  "filter_cleared f =
     (state1 f = 0 \<and> state2 f = 0 \<and> input_store f = 0 \<and> intermediate f = 0
      \<and> filter_output f = 0 \<and> processed_input f = 0)"

definition compressor_neutral :: "CompressorState \<Rightarrow> bool" where
  "compressor_neutral c =
     (rms_smoother c = 0 \<and> log_envelope c = 0 \<and> gain_reduction c = 0
      \<and> envelope_output c = 1 \<and> processed_envelope c = 1)"

text \<open>
  The coefficients and the settings that \<open>InitializeBiquadFilter\<close> and
  \<open>InitializeCompressor\<close> write.
\<close>

definition filter_unconfigured :: "BiquadFilter \<Rightarrow> bool" where
  "filter_unconfigured f =
     (b0 f = 1 \<and> b1 f = 0 \<and> coeff_a1 f = 0 \<and> coeff_a2 f = 0 \<and> coeff_b2 f = 0)"

definition compressor_defaults :: "CompressorState \<Rightarrow> bool" where
  "compressor_defaults c =
     (threshold c = - 20 \<and> ratio_state c = 0 \<and> attack_coeff c = 1 / 10
      \<and> release_coeff c = 1 / 100 \<and> upward_ratio c = 2 \<and> rms_smoothing_coeff c = 1 / 10
      \<and> release_time c = 1 \<and> linear_coeff c = 1 \<and> knee_coeff c = 1 / 2)"

text \<open>
  The engine as \<open>OTT_Initialize\<close> leaves it and as a processing call keeps it:
  buffers allocated, two channels configured, both channel indices below 2, the write
  cursor inside the delay buffer.
\<close>

definition engine_ok :: "OTTPlugin \<Rightarrow> bool" where
  "engine_ok p =
     (buffers_ok p \<and> inputChannels p = 2 \<and> outputChannels p = 2
      \<and> inputChannelIndex p < 2 \<and> outputChannelIndex p < 2
      \<and> bufferIndex p < DELAY_BUFFER_SIZE)"

text \<open>
  A channel array for a block of \<open>n\<close> samples: two channel pointers, the first not
  null, each non-null buffer at least \<open>n\<close> samples long. \<open>chan_ready cs c n\<close>: channel
  \<open>c\<close> exists, is not null and holds at least \<open>n\<close> samples.
\<close>

definition channels_ok :: "channels \<Rightarrow> nat \<Rightarrow> bool" where
  "channels_ok cs n =
     (length cs = 2
      \<and> (case cs ! 0 of None \<Rightarrow> False | Some b \<Rightarrow> n \<le> length b)
      \<and> (case cs ! 1 of None \<Rightarrow> True | Some b \<Rightarrow> n \<le> length b))"

definition chan_ready :: "channels \<Rightarrow> nat \<Rightarrow> nat \<Rightarrow> bool" where
  "chan_ready cs c n =
     (c < length cs \<and> (case cs ! c of None \<Rightarrow> False | Some b \<Rightarrow> n \<le> length b))"

text \<open>The configuration fields that no processing call changes after the channel setup.\<close>

definition config :: "OTTPlugin \<Rightarrow> nat \<times> nat \<times> nat \<times> nat \<times> bool \<times> bool" where
  "config p = (inputChannels p, outputChannels p, inputChannelIndex p, outputChannelIndex p,
               bypass p, advancedMode p)"

text \<open>
  Compressor states on the main path (\<open>ratio_state\<close> at \<open>NEGATIVE_THRESHOLD\<close>) with
  threshold \<open>-1\<close>, settled on a constant input power: \<open>settled_quiet\<close> on power 0 and
  \<open>settled_loud\<close> on power 1, that is, the RMS smoother holds the power and
  \<open>gain_reduction\<close> holds the level the power gives. \<open>unfloored_state\<close> is
  \<open>settled_loud\<close> with the upward ratio \<open>-2\<close>.
\<close>

definition settled_base :: CompressorState where
  "settled_base =
     zero_compressor\<lparr>ratio_state := NEGATIVE_THRESHOLD, threshold := - 1, upward_ratio := 1,
       attack_coeff := 1 / 10, release_coeff := 1 / 100, rms_smoothing_coeff := 1 / 10\<rparr>"

definition settled_quiet :: CompressorState where
  "settled_quiet = settled_base\<lparr>rms_smoother := 0, gain_reduction := 0\<rparr>"

definition settled_loud :: CompressorState where
  "settled_loud =
     settled_base\<lparr>rms_smoother := 1,
       gain_reduction := ln (1 + 1 / 10 ^ 30) * LOG_SCALE_FACTOR + 1\<rparr>"

definition unfloored_state :: CompressorState where
  "unfloored_state = settled_loud\<lparr>upward_ratio := - 2\<rparr>"

text \<open>
  The range of the floating-point types. The largest double is below \<open>2 ^ 1024\<close> and
  the largest float below \<open>2 ^ 128\<close>; a computed value at or above the bound does not
  fit the type, and C stores \<^verbatim>\<open>+inf\<close> in its place.
\<close>

definition DBL_OVERFLOW :: real where
  "DBL_OVERFLOW = 2 ^ 1024"

definition FLT_OVERFLOW :: real where
  "FLT_OVERFLOW = 2 ^ 128"

text \<open>
  The arithmetic of one compression iteration (ott\_processing.c, from the band powers
  to the two final samples) on six band samples \<open>s 0\<close>, ..., \<open>s 5\<close> (low left, low right,
  mid left, mid right, high left, high right): the left and right output samples and
  the three compressors after the iteration.
\<close>

definition compressed_sample ::
  "OTTPlugin \<Rightarrow> (nat \<Rightarrow> real)
     \<Rightarrow> real \<times> real \<times> CompressorState \<times> CompressorState \<times> CompressorState" where
  "compressed_sample p s =
     (let smoothedOutput = (finalGain p - fst (outputSmoother p)) * snd (outputSmoother p)
                             + fst (outputSmoother p);
          lowPower = s 0 * s 0 + s 1 * s 1 + NOISE_FLOOR;
          midPower = s 2 * s 2 + s 3 * s 3 + NOISE_FLOOR;
          highPower = s 4 * s 4 + s 5 * s 5 + NOISE_FLOOR;
          low = ProcessCompressorBand (compressorLow p) lowPower smoothedOutput
                  (lowBandGain p) ENVELOPE_TIME_CONSTANT;
          mid = ProcessCompressorBand (compressorMid p) midPower smoothedOutput
                  (midBandGain p) ENVELOPE_TIME_CONSTANT;
          high = ProcessCompressorBand (compressorHigh p) highPower smoothedOutput
                   (highBandGain p) ENVELOPE_TIME_CONSTANT;
          finalLeft = (s 0 * fst low + s 2 * fst mid + s 4 * fst high) * smoothedOutput;
          finalRight = (s 1 * fst low + s 3 * fst mid + s 5 * fst high) * smoothedOutput
      in (finalLeft, finalRight, snd low, snd mid, snd high))"

text \<open>A filter fed a sequence of input samples, one call of \<open>ProcessBiquadFilter\<close> each.\<close>

definition run_filter :: "BiquadFilter \<Rightarrow> real list \<Rightarrow> BiquadFilter" where
  "run_filter f xs = fold (\<lambda>x g. ProcessBiquadFilter g x) xs f"


section \<open>Parameters: mapping, round trip, invalid arguments\<close>

text \<open>
  C6. For a value in the unit interval, setting Upward Ratio (index 2) or Downward
  Ratio (index 3) stores the piecewise ratio: \<open>v * 2\<close> up to one half, and
  \<open>(v - 1/2) * 16 + 1\<close> above it.
\<close>

theorem ratio_parameter_mapping:
  "0 \<le> v \<and> v \<le> 1 \<longrightarrow>
     upwardRatio (OTT_SetParameter p 2 v) = (if v \<le> 1 / 2 then v * 2 else (v - 1 / 2) * 16 + 1)
   \<and> downwardRatio (OTT_SetParameter p 3 v) = (if v \<le> 1 / 2 then v * 2 else (v - 1 / 2) * 16 + 1)
   \<and> CalculateCompressionRatio v = (if v \<le> 1 / 2 then v * 2 else (v - 1 / 2) * 16 + 1)"
  by (simp add: OTT_SetParameter_def CalculateCompressionRatio_def Let_def)

text \<open>The scenario of C6: the value 1.0 gives the ratio 9, the value 0.0 the ratio 0.\<close>

theorem ratio_parameter_mapping_witness:
  "(0::real) \<le> 1 \<and> (1::real) \<le> 1
   \<and> upwardRatio (OTT_SetParameter zero_plugin 2 1) = 9
   \<and> downwardRatio (OTT_SetParameter zero_plugin 3 1) = 9
   \<and> CalculateCompressionRatio 1 = 9
   \<and> upwardRatio (OTT_SetParameter zero_plugin 2 0) = 0
   \<and> downwardRatio (OTT_SetParameter zero_plugin 3 0) = 0"
  using ratio_parameter_mapping [of 1 zero_plugin] ratio_parameter_mapping [of 0 zero_plugin]
  by simp

text \<open>
  C2, as stated, fails on a flag parameter: Advanced Mode (index 4) set to one half
  reads back as 1, not as one half.
\<close>

theorem parameter_roundtrip_boolean_counterexample:
  "OTT_GetParameter (OTT_SetParameter zero_plugin 4 (1 / 2)) 4 \<noteq> clamp01 (1 / 2)"
  by (simp add: OTT_SetParameter_def OTT_GetParameter_def clamp01_def Let_def
      ConvertBooleanParameter_def)

text \<open>
  C2, amended. For an index from 0 to 19, reading a parameter after setting it returns
  the clamped value, except for the flag parameters (4, 11 to 16 and 19), which return
  1 when the clamped value is not zero and 0 when it is.
\<close>

theorem parameter_roundtrip:
  "0 \<le> i \<and> i \<le> 19 \<longrightarrow>
     OTT_GetParameter (OTT_SetParameter p i v) i =
       (if is_boolean_parameter i then (if clamp01 v \<noteq> 0 then 1 else 0) else clamp01 v)"
  by (auto simp add: OTT_SetParameter_def OTT_GetParameter_def clamp01_def Let_def
      ConvertBooleanParameter_def is_boolean_parameter_def)

theorem parameter_roundtrip_witness:
  "(0::int) \<le> 2 \<and> (2::int) \<le> 19
   \<and> OTT_GetParameter (OTT_SetParameter zero_plugin 2 (3 / 4)) 2 = 3 / 4
   \<and> OTT_GetParameter (OTT_SetParameter zero_plugin 19 (3 / 4)) 19 = 1"
  using parameter_roundtrip [of 2 zero_plugin "3 / 4"] parameter_roundtrip [of 19 zero_plugin "3 / 4"]
  by (simp add: clamp01_def is_boolean_parameter_def)

text \<open>
  C9. \<open>OTT_Process\<close> with a null plugin, a null channel array, a non-positive sample
  count or a null first channel returns with the plugin and the output buffers as they
  were; \<open>OTT_SetParameter\<close> with an index outside 0 to 19 returns the plugin unchanged.
\<close>

theorem invalid_arguments_ignored:
  "((plugin = None \<or> inputs = None \<or> outputs = None \<or> sampleCount \<le> 0
      \<or> (\<exists>ins. inputs = Some ins \<and> chan_ptr ins 0 = Some None)
      \<or> (\<exists>ins outs. inputs = Some ins \<and> chan_ptr ins 0 \<noteq> None
            \<and> outputs = Some outs \<and> chan_ptr outs 0 = Some None))
     \<longrightarrow> OTT_Process plugin inputs outputs sampleCount = Some (plugin, outputs))
   \<and> ((parameterIndex < 0 \<or> parameterIndex > 19)
     \<longrightarrow> OTT_SetParameter p parameterIndex v = p)"
  by (auto simp add: OTT_Process_def OTT_SetParameter_def split: option.splits)

theorem invalid_arguments_ignored_witness:
  "OTT_Process (Some zero_plugin) (Some [Some [1], Some [1]]) (Some [Some [5], Some [5]]) 0
     = Some (Some zero_plugin, Some [Some [5], Some [5]])
   \<and> OTT_Process (Some zero_plugin) (Some [Some [1], Some [1]]) (Some [None, Some [5]]) 1
     = Some (Some zero_plugin, Some [None, Some [5]])
   \<and> OTT_SetParameter zero_plugin 20 1 = zero_plugin"
  using invalid_arguments_ignored
          [of "Some zero_plugin" "Some [Some [1], Some [1]]" "Some [Some [5], Some [5]]" 0 20
              zero_plugin 1]
        invalid_arguments_ignored
          [of "Some zero_plugin" "Some [Some [1], Some [1]]" "Some [None, Some [5]]" 1 20
              zero_plugin 1]
  by (simp add: chan_ptr_def)


section \<open>Reset\<close>

lemma init_all_filters_apply:
  "init_all_filters cf i = (if i < 6 then InitializeBiquadFilter (cf i) else cf i)"
proof -
  have "[0..<6] = [0, 1, 2, 3, 4, 5::nat]" by code_simp
  moreover have "i < 6 \<Longrightarrow> i = 0 \<or> i = 1 \<or> i = 2 \<or> i = 3 \<or> i = 4 \<or> i = 5"
    by arith
  ultimately show ?thesis by (auto simp add: init_all_filters_def)
qed

lemma clear_buffers_ok:
  "k \<le> length bufs \<Longrightarrow> list_all (\<lambda>b. length b = DELAY_BUFFER_SIZE) bufs \<Longrightarrow>
   clear_buffers k bufs = Some (replicate k (replicate DELAY_BUFFER_SIZE 0) @ drop k bufs)"
proof (induction k)
  case 0
  then show ?case by simp
next
  case (Suc k)
  then have k: "k < length bufs" by simp
  have len: "length (bufs ! k) = DELAY_BUFFER_SIZE"
    using Suc.prems(2) k by (simp add: list_all_length)
  have cb: "clear_buffers k bufs = Some (replicate k (replicate DELAY_BUFFER_SIZE 0) @ drop k bufs)"
    using Suc by simp
  have upd: "(replicate k (replicate DELAY_BUFFER_SIZE 0) @ drop k bufs)[k := replicate DELAY_BUFFER_SIZE 0]
      = replicate (Suc k) (replicate DELAY_BUFFER_SIZE 0) @ drop (Suc k) bufs"
  proof -
    have "drop k bufs = bufs ! k # drop (Suc k) bufs"
      using k by (simp add: Cons_nth_drop_Suc)
    then have "(replicate k (replicate DELAY_BUFFER_SIZE 0) @ drop k bufs)[k := replicate DELAY_BUFFER_SIZE 0]
        = replicate k (replicate DELAY_BUFFER_SIZE 0) @ (replicate DELAY_BUFFER_SIZE 0 # drop (Suc k) bufs)"
      by (simp add: list_update_append)
    also have "\<dots> = (replicate k (replicate DELAY_BUFFER_SIZE 0) @ [replicate DELAY_BUFFER_SIZE 0]) @ drop (Suc k) bufs"
      by simp
    also have "\<dots> = replicate (Suc k) (replicate DELAY_BUFFER_SIZE 0) @ drop (Suc k) bufs"
      by (simp only: replicate_append_same replicate_Suc)
    finally show ?thesis .
  qed
  show ?case
    using k len upd by (simp add: cb clear_buffer_def nth_append del: replicate_Suc)
qed

lemma shape_length:
  "map length bs = replicate m n \<Longrightarrow> length bs = m"
  by (metis length_map length_replicate)

lemma shape_nth:
  "map length bs = replicate m n \<Longrightarrow> k < m \<Longrightarrow> length (bs ! k) = n"
  by (metis length_map length_replicate nth_map nth_replicate)

lemma clear_buffers_all:
  assumes "buffers_shape m (Some bufs)"
  shows "clear_buffers m bufs = Some (replicate m (replicate DELAY_BUFFER_SIZE 0))"
proof -
  have s: "map length bufs = replicate m DELAY_BUFFER_SIZE"
    using assms by (simp add: buffers_shape_def)
  have "list_all (\<lambda>b. length b = DELAY_BUFFER_SIZE) bufs"
    using shape_nth [OF s] shape_length [OF s] by (simp add: list_all_length)
  then show ?thesis
    using shape_length [OF s] by (simp add: clear_buffers_ok)
qed

lemma OTT_Reset_ok:
  assumes "buffers_ok p"
  shows "OTT_Reset p = Some (p\<lparr>crossoverFilters := init_all_filters (crossoverFilters p),
           compressorLow := InitializeCompressor (compressorLow p),
           compressorMid := InitializeCompressor (compressorMid p),
           compressorHigh := InitializeCompressor (compressorHigh p),
           peakEnvelopeLeft := 0, peakEnvelopeRight := 0,
           bandBuffers := Some (replicate 6 (replicate DELAY_BUFFER_SIZE 0)),
           delayBuffers := Some (replicate 8 (replicate DELAY_BUFFER_SIZE 0)),
           bufferIndex := 0, writeIndex := 0, needsUpdate := True\<rparr>)"
proof -
  obtain bb db where b: "bandBuffers p = Some bb" "delayBuffers p = Some db"
    and s: "buffers_shape 6 (Some bb)" "buffers_shape 8 (Some db)"
    using assms by (auto simp add: buffers_ok_def buffers_shape_def split: option.splits)
  show ?thesis
    by (simp add: OTT_Reset_def Let_def b clear_buffers_all [OF s(1)] clear_buffers_all [OF s(2)])
qed


lemma defaults_list: "[0..<20] = [0, 1, 2, 3, 4, 5, 6, 7, 8, 9, 10, 11, 12, 13, 14, 15, 16, 17, 18, 19::nat]"
  by code_simp

lemma fold_frame:
  "(\<And>q i. sel (f i q) = sel q) \<Longrightarrow> sel (fold f xs p) = sel p"
  by (induction xs arbitrary: p) auto

lemma defaults_frame:
  "(\<And>q i v. sel (OTT_SetParameter q i v) = sel q) \<Longrightarrow>
   sel (OTT_InitializeParametersToDefaults p) = sel p"
  unfolding OTT_InitializeParametersToDefaults_def by (rule fold_frame) simp

lemma SetParameter_frame:
  "crossoverFilters (OTT_SetParameter q i v) = crossoverFilters q"
  "bandBuffers (OTT_SetParameter q i v) = bandBuffers q"
  "delayBuffers (OTT_SetParameter q i v) = delayBuffers q"
  "inputChannels (OTT_SetParameter q i v) = inputChannels q"
  "outputChannels (OTT_SetParameter q i v) = outputChannels q"
  "inputChannelIndex (OTT_SetParameter q i v) = inputChannelIndex q"
  "outputChannelIndex (OTT_SetParameter q i v) = outputChannelIndex q"
  "bufferIndex (OTT_SetParameter q i v) = bufferIndex q"
  "compressorLow (OTT_SetParameter q i v) = compressorLow q"
  "compressorMid (OTT_SetParameter q i v) = compressorMid q"
  "compressorHigh (OTT_SetParameter q i v) = compressorHigh q"
  by (simp_all add: OTT_SetParameter_def Let_def)

lemma defaults_flags:
  "bypass (OTT_InitializeParametersToDefaults p) = False"
  "advancedMode (OTT_InitializeParametersToDefaults p) = False"
  by (simp_all add: OTT_InitializeParametersToDefaults_def defaults_list OTT_SetParameter_def
      OTT_GetParameterDefault_def ConvertBooleanParameter_def Let_def)

lemma Initialize_facts:
  "buffers_ok (OTT_Initialize sr)"
  "inputChannels (OTT_Initialize sr) = 2"
  "outputChannels (OTT_Initialize sr) = 2"
  "inputChannelIndex (OTT_Initialize sr) = 0"
  "outputChannelIndex (OTT_Initialize sr) = 0"
  "bufferIndex (OTT_Initialize sr) = 0"
  "bypass (OTT_Initialize sr) = False"
  "advancedMode (OTT_Initialize sr) = False"
  by (simp_all add: OTT_Initialize_def Let_def SetupOTTCrossoverFilters_def buffers_ok_def
      buffers_shape_def defaults_flags defaults_frame [where sel = bandBuffers]
      defaults_frame [where sel = delayBuffers] defaults_frame [where sel = inputChannels]
      defaults_frame [where sel = outputChannels] defaults_frame [where sel = inputChannelIndex]
      defaults_frame [where sel = outputChannelIndex] SetParameter_frame)

lemma Initialize_filter0:
  "crossoverFilters (OTT_Initialize sr) 0 =
     CalculateBiquadCoefficients (InitializeBiquadFilter zero_filter) 200 sr"
  by (simp add: OTT_Initialize_def Let_def SetupOTTCrossoverFilters_def
      defaults_frame [where sel = crossoverFilters] SetParameter_frame init_all_filters_apply
      zero_plugin_def InitializeBiquadFilter_def)

lemma Initialize_compressorLow:
  "compressorLow (OTT_Initialize sr) =
     SetCompressorParameters (InitializeCompressor zero_compressor) (- 20) 2 (1 / 10) (1 / 100) 2"
  by (simp add: OTT_Initialize_def Let_def SetupOTTCrossoverFilters_def
      defaults_frame [where sel = compressorLow] SetParameter_frame zero_plugin_def)

lemma b1_after_setup_nonzero:
  "b1 (CalculateBiquadCoefficients f fr sr) \<noteq> 0"
proof -
  define t where "t = tan (fr * pi / sr)"
  have "(1 / t + t) * t + 1 > 0"
  proof (cases "t = 0")
    case True
    then show ?thesis by simp
  next
    case False
    then have "(1 / t + t) * t = 1 + t * t" by (simp add: field_simps)
    moreover have "t * t \<ge> 0" by simp
    ultimately show ?thesis by linarith
  qed
  then show ?thesis
    by (simp add: CalculateBiquadCoefficients_def Let_def t_def)
qed

lemma Initialize_compressorMid:
  "compressorMid (OTT_Initialize sr) =
     SetCompressorParameters (InitializeCompressor zero_compressor) (- 15) 3 (8 / 100)
       (15 / 1000) (5 / 2)"
  by (simp add: OTT_Initialize_def Let_def SetupOTTCrossoverFilters_def
      defaults_frame [where sel = compressorMid] SetParameter_frame zero_plugin_def)

lemma Initialize_compressorHigh:
  "compressorHigh (OTT_Initialize sr) =
     SetCompressorParameters (InitializeCompressor zero_compressor) (- 10) 4 (5 / 100)
       (2 / 100) 3"
  by (simp add: OTT_Initialize_def Let_def SetupOTTCrossoverFilters_def
      defaults_frame [where sel = compressorHigh] SetParameter_frame zero_plugin_def)

lemma Initialize_filters:
  "i < 6 \<Longrightarrow> crossoverFilters (OTT_Initialize sr) i =
     CalculateBiquadCoefficients (InitializeBiquadFilter zero_filter)
       (if i < 2 then 200 else 2000) sr"
proof -
  assume "i < 6"
  then have "i = 0 \<or> i = 1 \<or> i = 2 \<or> i = 3 \<or> i = 4 \<or> i = 5" by arith
  then show ?thesis
    by (auto simp add: OTT_Initialize_def Let_def SetupOTTCrossoverFilters_def
        defaults_frame [where sel = crossoverFilters] SetParameter_frame init_all_filters_apply
        zero_plugin_def InitializeBiquadFilter_def)
qed

text \<open>
  A filter whose delay states and coefficients \<open>coeff_a1\<close>, \<open>coeff_a2\<close>, \<open>coeff_b2\<close> are
  zero stays so whatever it is fed, and its low-pass output stays 0.
\<close>

lemma wiped_filter_silent:
  assumes "state1 f = 0" "state2 f = 0" "filter_output f = 0"
    and "coeff_a1 f = 0" "coeff_a2 f = 0" "coeff_b2 f = 0"
  shows "GetBiquadLowpass (run_filter f xs) = 0"
proof -
  have "state1 (run_filter f xs) = 0 \<and> state2 (run_filter f xs) = 0
      \<and> filter_output (run_filter f xs) = 0 \<and> coeff_a1 (run_filter f xs) = 0
      \<and> coeff_a2 (run_filter f xs) = 0 \<and> coeff_b2 (run_filter f xs) = 0"
    using assms
  proof (induction xs arbitrary: f)
    case Nil
    then show ?case by (simp add: run_filter_def)
  next
    case (Cons x xs)
    have "run_filter f (x # xs) = run_filter (ProcessBiquadFilter f x) xs"
      by (simp add: run_filter_def)
    moreover have "state1 (ProcessBiquadFilter f x) = 0" "state2 (ProcessBiquadFilter f x) = 0"
      "filter_output (ProcessBiquadFilter f x) = 0" "coeff_a1 (ProcessBiquadFilter f x) = 0"
      "coeff_a2 (ProcessBiquadFilter f x) = 0" "coeff_b2 (ProcessBiquadFilter f x) = 0"
      using Cons.prems by (simp_all add: ProcessBiquadFilter_def Let_def)
    ultimately show ?case using Cons.IH by simp
  qed
  then show ?thesis by (simp add: GetBiquadLowpass_def)
qed

text \<open>A configured filter is not silent: its first low-pass output is the input times \<open>coeff_b2\<close>.\<close>

lemma fresh_filter_lowpass:
  "GetBiquadLowpass (ProcessBiquadFilter
       (CalculateBiquadCoefficients (InitializeBiquadFilter zero_filter) fr sr) u)
     = u * (tan (fr * pi / sr) * tan (fr * pi / sr)
            / ((1 / tan (fr * pi / sr) + tan (fr * pi / sr)) * tan (fr * pi / sr) + 1))"
  by (simp add: GetBiquadLowpass_def ProcessBiquadFilter_def CalculateBiquadCoefficients_def
      InitializeBiquadFilter_def zero_filter_def Let_def)

lemma tan_crossover:
  assumes "0 < fr" "4 * fr < sr"
  shows "0 < tan (fr * pi / sr)" "tan (fr * pi / sr) < 1"
proof -
  have sr: "0 < sr" using assms by linarith
  have "fr * pi / sr < (sr / 4) * pi / sr"
    using assms sr by (intro divide_strict_right_mono mult_strict_right_mono) auto
  then have lt: "fr * pi / sr < pi / 4" using sr by simp
  have pos: "0 < fr * pi / sr" using assms sr by simp
  have "fr * pi / sr < pi / 2" using lt pi_gt_zero by linarith
  then show "0 < tan (fr * pi / sr)" using pos by (intro tan_gt_zero)
  have "tan (fr * pi / sr) < tan (pi / 4)"
  proof (rule tan_monotone [OF _ lt])
    show "- (pi / 2) < fr * pi / sr" using pos pi_gt_zero by linarith
    show "pi / 4 < pi / 2" using pi_gt_zero by linarith
  qed
  then show "tan (fr * pi / sr) < 1" by (simp add: tan_45)
qed


text \<open>
  C4 at a failing input. On an engine with its buffers allocated \<open>OTT_Reset\<close> returns.
  It zeroes the delay states and cached values of the six crossover filters, the
  envelope state of the three compressors (setting \<open>envelope_output\<close> and
  \<open>processed_envelope\<close> to the unity gain 1), the band and delay buffers, the cursors
  and the peak envelopes, and every parameter reads as before. It also overwrites what
  the claim says it leaves alone. Each filter gets the coefficients of
  \<open>InitializeBiquadFilter\<close>, \<open>b0 = 1\<close> and all others 0, in place of those
  \<open>SetupOTTCrossoverFilters\<close> had computed, so that from then on its low-pass output is
  0 whatever it is fed. Each compressor gets the settings of \<open>InitializeCompressor\<close>
  (threshold \<open>-20\<close>, ratio state 0, ...) in place of those \<open>OTT_Initialize\<close> had passed to
  \<open>SetCompressorParameters\<close>.
\<close>

theorem reset_wipes_coefficients:
  "buffers_ok p \<longrightarrow>
     (\<exists>p'. OTT_Reset p = Some p'
        \<and> (\<forall>i<6. filter_cleared (crossoverFilters p' i)
               \<and> filter_unconfigured (crossoverFilters p' i)
               \<and> (\<forall>xs. GetBiquadLowpass (run_filter (crossoverFilters p' i) xs) = 0))
        \<and> compressorLow p' = InitializeCompressor (compressorLow p)
        \<and> compressorMid p' = InitializeCompressor (compressorMid p)
        \<and> compressorHigh p' = InitializeCompressor (compressorHigh p)
        \<and> compressor_neutral (compressorLow p') \<and> compressor_defaults (compressorLow p')
        \<and> compressor_neutral (compressorMid p') \<and> compressor_defaults (compressorMid p')
        \<and> compressor_neutral (compressorHigh p') \<and> compressor_defaults (compressorHigh p')
        \<and> bandBuffers p' = Some (replicate 6 (replicate DELAY_BUFFER_SIZE 0))
        \<and> delayBuffers p' = Some (replicate 8 (replicate DELAY_BUFFER_SIZE 0))
        \<and> bufferIndex p' = 0 \<and> writeIndex p' = 0
        \<and> peakEnvelopeLeft p' = 0 \<and> peakEnvelopeRight p' = 0
        \<and> (\<forall>i. OTT_GetParameter p' i = OTT_GetParameter p i))"
proof
  assume ok: "buffers_ok p"
  define p' where "p' = p\<lparr>crossoverFilters := init_all_filters (crossoverFilters p),
           compressorLow := InitializeCompressor (compressorLow p),
           compressorMid := InitializeCompressor (compressorMid p),
           compressorHigh := InitializeCompressor (compressorHigh p),
           peakEnvelopeLeft := 0, peakEnvelopeRight := 0,
           bandBuffers := Some (replicate 6 (replicate DELAY_BUFFER_SIZE 0)),
           delayBuffers := Some (replicate 8 (replicate DELAY_BUFFER_SIZE 0)),
           bufferIndex := 0, writeIndex := 0, needsUpdate := True\<rparr>"
  have r: "OTT_Reset p = Some p'" unfolding p'_def by (rule OTT_Reset_ok [OF ok])
  have f: "crossoverFilters p' i = InitializeBiquadFilter (crossoverFilters p i)" if "i < 6" for i
    using that by (simp add: p'_def init_all_filters_apply)
  have filters: "\<forall>i<6. filter_cleared (crossoverFilters p' i)
               \<and> filter_unconfigured (crossoverFilters p' i)
               \<and> (\<forall>xs. GetBiquadLowpass (run_filter (crossoverFilters p' i) xs) = 0)"
  proof (intro allI impI conjI)
    fix i :: nat assume i: "i < 6"
    show "filter_cleared (crossoverFilters p' i)"
      by (simp add: f [OF i] filter_cleared_def InitializeBiquadFilter_def)
    show "filter_unconfigured (crossoverFilters p' i)"
      by (simp add: f [OF i] filter_unconfigured_def InitializeBiquadFilter_def)
    fix xs
    show "GetBiquadLowpass (run_filter (crossoverFilters p' i) xs) = 0"
      by (rule wiped_filter_silent) (simp_all add: f [OF i] InitializeBiquadFilter_def)
  qed
  have comps: "compressorLow p' = InitializeCompressor (compressorLow p)"
    "compressorMid p' = InitializeCompressor (compressorMid p)"
    "compressorHigh p' = InitializeCompressor (compressorHigh p)"
    by (simp_all add: p'_def)
  have neutral: "compressor_neutral (InitializeCompressor c)"
    "compressor_defaults (InitializeCompressor c)" for c
    by (simp_all add: compressor_neutral_def compressor_defaults_def InitializeCompressor_def)
  have rest: "bandBuffers p' = Some (replicate 6 (replicate DELAY_BUFFER_SIZE 0))"
    "delayBuffers p' = Some (replicate 8 (replicate DELAY_BUFFER_SIZE 0))"
    "bufferIndex p' = 0" "writeIndex p' = 0" "peakEnvelopeLeft p' = 0" "peakEnvelopeRight p' = 0"
    "\<forall>i. OTT_GetParameter p' i = OTT_GetParameter p i"
    by (simp_all add: p'_def OTT_GetParameter_def)
  show "\<exists>p'. OTT_Reset p = Some p'
        \<and> (\<forall>i<6. filter_cleared (crossoverFilters p' i)
               \<and> filter_unconfigured (crossoverFilters p' i)
               \<and> (\<forall>xs. GetBiquadLowpass (run_filter (crossoverFilters p' i) xs) = 0))
        \<and> compressorLow p' = InitializeCompressor (compressorLow p)
        \<and> compressorMid p' = InitializeCompressor (compressorMid p)
        \<and> compressorHigh p' = InitializeCompressor (compressorHigh p)
        \<and> compressor_neutral (compressorLow p') \<and> compressor_defaults (compressorLow p')
        \<and> compressor_neutral (compressorMid p') \<and> compressor_defaults (compressorMid p')
        \<and> compressor_neutral (compressorHigh p') \<and> compressor_defaults (compressorHigh p')
        \<and> bandBuffers p' = Some (replicate 6 (replicate DELAY_BUFFER_SIZE 0))
        \<and> delayBuffers p' = Some (replicate 8 (replicate DELAY_BUFFER_SIZE 0))
        \<and> bufferIndex p' = 0 \<and> writeIndex p' = 0
        \<and> peakEnvelopeLeft p' = 0 \<and> peakEnvelopeRight p' = 0
        \<and> (\<forall>i. OTT_GetParameter p' i = OTT_GetParameter p i)"
    using r filters comps neutral rest by (intro exI [of _ p']) (simp only: simp_thms)
qed

text \<open>
  The failing input of C4: the engine \<open>OTT_Initialize\<close> builds for 44100 Hz. Before the
  reset the first crossover filter has \<open>b1 \<noteq> 0\<close> and answers the input 1 with a
  non-zero low-pass output, and the mid-band compressor has threshold \<open>-15\<close> and ratio
  state 3. After the reset \<open>b1 = 0\<close>, the low-pass output is 0, the threshold is \<open>-20\<close>
  and the ratio state is 0.
\<close>

theorem reset_wipes_coefficients_witness:
  "buffers_ok (OTT_Initialize 44100)
   \<and> b1 (crossoverFilters (OTT_Initialize 44100) 0) \<noteq> 0
   \<and> GetBiquadLowpass (run_filter (crossoverFilters (OTT_Initialize 44100) 0) [1]) \<noteq> 0
   \<and> threshold (compressorMid (OTT_Initialize 44100)) = - 15
   \<and> ratio_state (compressorMid (OTT_Initialize 44100)) = 3
   \<and> (\<exists>p'. OTT_Reset (OTT_Initialize 44100) = Some p'
        \<and> b1 (crossoverFilters p' 0) = 0
        \<and> GetBiquadLowpass (run_filter (crossoverFilters p' 0) [1]) = 0
        \<and> threshold (compressorMid p') = - 20
        \<and> ratio_state (compressorMid p') = 0
        \<and> bandBuffers p' = Some (replicate 6 (replicate DELAY_BUFFER_SIZE 0))
        \<and> OTT_GetParameter p' 0 = OTT_GetParameter (OTT_Initialize 44100) 0)"
proof -
  have t: "0 < tan (200 * pi / 44100 :: real)"
    using tan_crossover(1) [of 200 44100] by simp
  have "GetBiquadLowpass (run_filter (crossoverFilters (OTT_Initialize 44100) 0) [1])
      = tan (200 * pi / 44100) * tan (200 * pi / 44100)
            / ((1 / tan (200 * pi / 44100) + tan (200 * pi / 44100)) * tan (200 * pi / 44100) + 1)"
    using fresh_filter_lowpass [of 200 44100 1]
    by (simp add: run_filter_def Initialize_filters)
  moreover have "0 < tan (200 * pi / 44100) * tan (200 * pi / 44100)
            / ((1 / tan (200 * pi / 44100) + tan (200 * pi / 44100)) * tan (200 * pi / 44100) + 1 :: real)"
    using t by (intro divide_pos_pos mult_pos_pos add_pos_pos) simp_all
  ultimately have before:
    "GetBiquadLowpass (run_filter (crossoverFilters (OTT_Initialize 44100) 0) [1]) \<noteq> 0"
    by linarith
  have b: "b1 (crossoverFilters (OTT_Initialize 44100) 0) \<noteq> 0"
    by (simp add: Initialize_filter0 b1_after_setup_nonzero)
  have m: "threshold (compressorMid (OTT_Initialize 44100)) = - 15"
    "ratio_state (compressorMid (OTT_Initialize 44100)) = 3"
    by (simp_all add: Initialize_compressorMid SetCompressorParameters_def)
  from reset_wipes_coefficients [of "OTT_Initialize 44100"] Initialize_facts(1) [of 44100]
  obtain p' where r: "OTT_Reset (OTT_Initialize 44100) = Some p'"
    and f: "\<forall>i<6. filter_cleared (crossoverFilters p' i)
               \<and> filter_unconfigured (crossoverFilters p' i)
               \<and> (\<forall>xs. GetBiquadLowpass (run_filter (crossoverFilters p' i) xs) = 0)"
    and c: "compressor_defaults (compressorMid p')"
    and bb: "bandBuffers p' = Some (replicate 6 (replicate DELAY_BUFFER_SIZE 0))"
    and g: "\<forall>i. OTT_GetParameter p' i = OTT_GetParameter (OTT_Initialize 44100) i"
    by blast
  have "b1 (crossoverFilters p' 0) = 0"
    "GetBiquadLowpass (run_filter (crossoverFilters p' 0) [1]) = 0"
    using f by (simp_all add: filter_unconfigured_def)
  moreover have "threshold (compressorMid p') = - 20" "ratio_state (compressorMid p') = 0"
    using c by (simp_all add: compressor_defaults_def)
  ultimately show ?thesis
    using Initialize_facts(1) [of 44100] b before m r bb g by simp
qed


section \<open>Compressor band engine\<close>

lemma constants_sign:
  "0 < MIN_GAIN_THRESHOLD" "0 \<le> MAX_COMPRESSION_RATIO" "0 \<le> LOG_SCALE_FACTOR"
  "NEGATIVE_THRESHOLD \<le> 0" "1 / 10 \<le> ENVELOPE_TIME_CONSTANT" "3 \<le> MAX_COMPRESSION_RATIO"
  "1 / 100 \<le> MIN_GAIN_THRESHOLD"
  by (simp_all add: MIN_GAIN_THRESHOLD_def MAX_COMPRESSION_RATIO_def LOG_SCALE_FACTOR_def
      NEGATIVE_THRESHOLD_def ENVELOPE_TIME_CONSTANT_def)


text \<open>
  The main path above the threshold, called on a settled compressor: the RMS smoother
  and \<open>gain_reduction\<close> stay as they are, and the stored gain is the exponential of
  the capped product.
\<close>

lemma main_path_downward:
  assumes "ratio_state c \<le> NEGATIVE_THRESHOLD"
    and "0 \<le> P"
    and "rms_smoother c = P"
    and "max 0 (ln (sqrt P + 1 / 10 ^ 30) * LOG_SCALE_FACTOR - threshold c) = m"
    and "gain_reduction c = m"
    and "threshold c < m"
  shows "rms_smoother (snd (ProcessCompressorBand c P ol bg tc)) = P"
    and "gain_reduction (snd (ProcessCompressorBand c P ol bg tc)) = m"
    and "envelope_output (snd (ProcessCompressorBand c P ol bg tc)) =
           exp (min (exp ((m - threshold c) * tc) * upward_ratio c)
                  MAX_COMPRESSION_RATIO * tc)"
  using assms
  by (simp_all add: ProcessCompressorBand_def Let_def min_def)

lemma loud_level:
  "max 0 (ln (sqrt 1 + 1 / 10 ^ 30) * LOG_SCALE_FACTOR - (- 1))
     = ln (1 + 1 / 10 ^ 30) * LOG_SCALE_FACTOR + 1"
  "0 \<le> ln (1 + 1 / 10 ^ 30) * LOG_SCALE_FACTOR"
proof -
  have "0 \<le> ln (1 + 1 / 10 ^ 30 :: real)" by (rule ln_ge_zero) simp
  then show "0 \<le> ln (1 + 1 / 10 ^ 30) * LOG_SCALE_FACTOR"
    using constants_sign(3) by (rule mult_nonneg_nonneg)
  then show "max 0 (ln (sqrt 1 + 1 / 10 ^ 30) * LOG_SCALE_FACTOR - (- 1))
     = ln (1 + 1 / 10 ^ 30) * LOG_SCALE_FACTOR + 1"
    by (simp add: max_def)
qed

lemma quiet_level:
  "max 0 (ln (sqrt 0 + 1 / 10 ^ 30) * LOG_SCALE_FACTOR - (- 1)) = 0"
proof -
  have "ln (1 / 10 ^ 30 :: real) \<le> 1 / 10 ^ 30 - 1"
    by (rule ln_le_minus_one) simp
  then have a: "ln (1 / 10 ^ 30 :: real) \<le> - (1 / 2)" by simp
  have b: "2 \<le> LOG_SCALE_FACTOR" by (simp add: LOG_SCALE_FACTOR_def)
  have "ln (1 / 10 ^ 30) * LOG_SCALE_FACTOR \<le> - (1 / 2) * LOG_SCALE_FACTOR"
    using a b by (intro mult_right_mono) auto
  also have "\<dots> \<le> - 1" using b by simp
  finally show ?thesis by (simp add: max_def)
qed


text \<open>
  The alternative path below its threshold, called with the envelope follower above
  the level: the stored gain is the exponential of the release product, floored.
\<close>

lemma alternative_path_expansion:
  assumes "NEGATIVE_THRESHOLD < ratio_state c"
    and "(rms_smoother c - P) * rms_smoothing_coeff c + P = r"
    and "0 \<le> r"
    and "sqrt r \<le> exp (log_envelope c * tc)"
    and "knee_coeff c * exp (log_envelope c * tc) = pin"
    and "ln (pin + 1 / 10 ^ 30) * LOG_SCALE_FACTOR - threshold c = d"
    and "d \<le> 0"
  shows "envelope_output (snd (ProcessCompressorBand c P ol bg tc)) =
           max MIN_GAIN_THRESHOLD (exp ((release_time c - UNITY_GAIN) * d * tc))"
  using assms
  by (simp add: ProcessCompressorBand_def Let_def max_def not_le)

lemma exp_ge_power_two: "2 ^ n \<le> exp (real n)"
proof -
  have "(2::real) \<le> exp 1" using exp_ge_add_one_self [of "1::real"] by simp
  then have "(2::real) ^ n \<le> exp 1 ^ n" by (intro power_mono) auto
  also have "\<dots> = exp (real n * 1)" by (simp only: exp_of_nat_mult)
  finally show ?thesis by simp
qed

lemma ln_half: "ln (1 / 2 + 1 / 10 ^ 30 :: real) \<le> - (2 / 5)"
proof -
  have "ln (1 / 2 + 1 / 10 ^ 30 :: real) \<le> (1 / 2 + 1 / 10 ^ 30) - 1"
    by (rule ln_le_minus_one) simp
  then show ?thesis by simp
qed

text \<open>
  The first call on a compressor as \<open>InitializeCompressor\<close> and \<open>OTT_Initialize\<close> leave
  it (envelope and smoother at zero, knee one half, release time 1, the ratio state
  above \<open>NEGATIVE_THRESHOLD\<close>, the threshold not below \<open>-20\<close>), with an input power up to
  1 and the time constant \<open>ENVELOPE_TIME_CONSTANT\<close> of the processing call. The
  constants carry their integer values: \<open>release_time - UNITY_GAIN\<close> is about
  \<open>-4.6e18\<close>, the level below the threshold about \<open>-3.2e18\<close>, and the gain is the
  exponential of their product with the time constant, more than \<open>2 ^ 2048\<close>.
\<close>

lemma first_call_overflows:
  assumes "log_envelope c = 0" "rms_smoother c = 0" "NEGATIVE_THRESHOLD < ratio_state c"
    and "knee_coeff c = 1 / 2" "release_time c = 1"
    and "0 \<le> rms_smoothing_coeff c" "rms_smoothing_coeff c \<le> 1"
    and "- 20 \<le> threshold c" "0 \<le> P" "P \<le> 1"
  shows "2 ^ 2048 \<le> envelope_output (snd (ProcessCompressorBand c P ol bg ENVELOPE_TIME_CONSTANT))"
proof -
  define k where "k = rms_smoothing_coeff c"
  define r where "r = (rms_smoother c - P) * k + P"
  define d where "d = ln (1 / 2 + 1 / 10 ^ 30) * LOG_SCALE_FACTOR - threshold c"
  define E where "E = (release_time c - UNITY_GAIN) * d * ENVELOPE_TIME_CONSTANT"
  have r_eq: "r = P * (1 - k)" by (simp add: r_def assms(2) algebra_simps)
  have r0: "0 \<le> r" unfolding r_eq using assms(7,9) by (simp add: k_def)
  have "P * (1 - k) \<le> 1 * 1"
    using assms(6,7,9,10) by (intro mult_mono) (simp_all add: k_def)
  then have r1: "r \<le> 1" by (simp add: r_eq)
  have sq: "sqrt r \<le> exp (log_envelope c * ENVELOPE_TIME_CONSTANT)"
    using r1 by (simp add: assms(1))
  have pin: "knee_coeff c * exp (log_envelope c * ENVELOPE_TIME_CONSTANT) = 1 / 2"
    by (simp add: assms(1,4))
  have "ln (1 / 2 + 1 / 10 ^ 30) * LOG_SCALE_FACTOR \<le> - (2 / 5) * LOG_SCALE_FACTOR"
    using ln_half by (intro mult_right_mono) (simp_all add: LOG_SCALE_FACTOR_def)
  also have "\<dots> \<le> - (10 ^ 18) - 20" by (simp add: LOG_SCALE_FACTOR_def)
  finally have d: "d \<le> - (10 ^ 18)" using assms(8) by (simp add: d_def)
  then have d0: "d \<le> 0" by simp
  have eo: "envelope_output (snd (ProcessCompressorBand c P ol bg ENVELOPE_TIME_CONSTANT))
      = max MIN_GAIN_THRESHOLD (exp E)"
    unfolding E_def
    by (rule alternative_path_expansion [OF assms(3) r_def [unfolded k_def, symmetric] r0 sq pin
          d_def [symmetric] d0])
  have u: "10 ^ 18 \<le> UNITY_GAIN - release_time c"
    by (simp add: UNITY_GAIN_def assms(5))
  have "10 ^ 18 * 10 ^ 18 \<le> (UNITY_GAIN - release_time c) * (- d)"
    using u d by (intro mult_mono) simp_all
  then have "2048 * 1 \<le> ((UNITY_GAIN - release_time c) * (- d)) * ENVELOPE_TIME_CONSTANT"
    by (intro mult_mono) (simp_all add: ENVELOPE_TIME_CONSTANT_def)
  then have "real 2048 \<le> E" by (simp add: E_def algebra_simps)
  then have "exp (real 2048) \<le> exp E" by simp
  then have "2 ^ 2048 \<le> exp E" using exp_ge_power_two [of 2048] by linarith
  then show ?thesis unfolding eo by (rule max.coboundedI2)
qed

lemma exp_minus_eight: "exp (- 8 :: real) < 1 / 100"
proof -
  have "(2::real) ^ 8 \<le> exp (real 8)" by (rule exp_ge_power_two)
  then have "(256::real) \<le> exp 8" by simp
  then have "1 / exp (8 :: real) \<le> 1 / 256"
    by (intro divide_left_mono) auto
  then show ?thesis by (simp add: exp_minus inverse_eq_divide)
qed


text \<open>
  C8 at its failing inputs. The constants carry their integer values, as C reads them.

  The stored gain is not finite. On a compressor that \<open>InitializeCompressor\<close> has just
  set up, any input power from 0 to 1 and the time constant of the processing call,
  \<open>ENVELOPE_TIME_CONSTANT\<close>, the call takes the floored branch of the alternative path
  and stores a value of at least \<open>2 ^ 1024\<close>: the double holds \<^verbatim>\<open>+inf\<close>.

  The stored gain is not floored. From \<open>settled_quiet\<close>, input power 0 and time
  constant 1, the call takes the main path above the threshold and stores \<open>exp (exp 1)\<close>,
  about 15.15, which is below \<open>MIN_GAIN_THRESHOLD\<close>; no value of this call leaves the
  range of a double. From \<open>unfloored_state\<close>, whose upward ratio is negative, the stored
  gain is also below 0.01, the value the header's comment gives the constant.
\<close>

theorem envelope_output_unbounded:
  "(0 \<le> P \<and> P \<le> 1 \<longrightarrow>
      DBL_OVERFLOW \<le> envelope_output (snd (ProcessCompressorBand (InitializeCompressor c) P ol bg
                          ENVELOPE_TIME_CONSTANT)))
   \<and> envelope_output (snd (ProcessCompressorBand settled_quiet 0 1 1 1)) = exp (exp 1)
   \<and> exp (exp 1) < MIN_GAIN_THRESHOLD
   \<and> envelope_output (snd (ProcessCompressorBand unfloored_state 1 1 1 1)) < 1 / 100
   \<and> 1 / 100 < MIN_GAIN_THRESHOLD"
proof (intro conjI impI)
  assume P: "0 \<le> P \<and> P \<le> 1"
  have "2 ^ 2048 \<le> envelope_output (snd (ProcessCompressorBand (InitializeCompressor c) P ol bg
                          ENVELOPE_TIME_CONSTANT))"
    using P by (intro first_call_overflows)
      (simp_all add: InitializeCompressor_def NEGATIVE_THRESHOLD_def)
  moreover have "(2::real) ^ 1024 \<le> 2 ^ 2048" by (intro power_increasing) simp_all
  ultimately show "DBL_OVERFLOW \<le> envelope_output (snd (ProcessCompressorBand
      (InitializeCompressor c) P ol bg ENVELOPE_TIME_CONSTANT))"
    unfolding DBL_OVERFLOW_def by (rule order_trans [rotated])
next
  have q: "ratio_state settled_quiet \<le> NEGATIVE_THRESHOLD"
      "rms_smoother settled_quiet = 0"
      "max 0 (ln (sqrt 0 + 1 / 10 ^ 30) * LOG_SCALE_FACTOR - threshold settled_quiet) = 0"
      "gain_reduction settled_quiet = 0"
      "threshold settled_quiet < 0"
    using quiet_level
    by (simp_all add: settled_quiet_def settled_base_def zero_compressor_def)
  note ql = main_path_downward [OF q(1) order_refl q(2) q(3) q(4) q(5), of 1 1 1]
  have e3: "exp (1::real) \<le> 3" by (rule exp_le)
  have "min (exp (1::real)) MAX_COMPRESSION_RATIO = exp 1"
    using e3 constants_sign(6) by (simp add: min_def)
  then show "envelope_output (snd (ProcessCompressorBand settled_quiet 0 1 1 1)) = exp (exp 1)"
    using ql(3)
    by (simp add: settled_quiet_def settled_base_def zero_compressor_def)
next
  have e3: "exp (1::real) \<le> 3" by (rule exp_le)
  then have "exp (exp (1::real)) \<le> exp 3" by simp
  also have "exp (3::real) = exp (real 3 * 1)" by simp
  also have "\<dots> = exp 1 ^ 3" by (simp only: exp_of_nat_mult)
  also have "\<dots> \<le> 3 ^ 3" using e3 by (intro power_mono) simp_all
  also have "\<dots> < MIN_GAIN_THRESHOLD" by (simp add: MIN_GAIN_THRESHOLD_def)
  finally show "exp (exp 1) < MIN_GAIN_THRESHOLD" .
next
  define m where "m = ln (1 + 1 / 10 ^ 30) * LOG_SCALE_FACTOR + 1"
  define E where "E = min (exp ((m - threshold unfloored_state) * 1)
                            * upward_ratio unfloored_state) MAX_COMPRESSION_RATIO * 1"
  have m: "1 \<le> m" using loud_level(2) by (simp add: m_def)
  have th: "threshold unfloored_state = - 1" and ur: "upward_ratio unfloored_state = - 2"
    by (simp_all add: unfloored_state_def settled_loud_def settled_base_def zero_compressor_def)
  have eo: "envelope_output (snd (ProcessCompressorBand unfloored_state 1 1 1 1)) = exp E"
    unfolding E_def
    apply (rule main_path_downward(3) [where m = m])
    using m loud_level(1)
    by (simp_all add: unfloored_state_def settled_loud_def settled_base_def zero_compressor_def
        m_def)
  have "(2::real) ^ 2 \<le> exp (real 2)" by (rule exp_ge_power_two)
  also have "exp (real 2) \<le> exp (m + 1)" using m by simp
  finally have g: "4 \<le> exp (m + 1)" by simp
  have "exp (m + 1) * (- 2) \<le> - 8" using g by linarith
  then have "exp ((m - threshold unfloored_state) * 1) * upward_ratio unfloored_state \<le> - 8"
    by (simp add: ur th)
  then have "min (exp ((m - threshold unfloored_state) * 1)
                       * upward_ratio unfloored_state) MAX_COMPRESSION_RATIO \<le> - 8"
    by (rule min.coboundedI1)
  then have "E \<le> - 8" by (simp add: E_def)
  then have "exp E \<le> exp (- 8)" by simp
  then have "exp E < 1 / 100" using exp_minus_eight by linarith
  then show "envelope_output (snd (ProcessCompressorBand unfloored_state 1 1 1 1)) < 1 / 100"
    by (simp only: eo)
next
  show "1 / 100 < MIN_GAIN_THRESHOLD" by (simp add: MIN_GAIN_THRESHOLD_def)
qed

text \<open>The failing input of C8: a freshly set-up compressor and the input power one half.\<close>

theorem envelope_output_unbounded_witness:
  "(0::real) \<le> 1 / 2 \<and> (1 / 2 :: real) \<le> 1
   \<and> envelope_output (InitializeCompressor zero_compressor) = 1
   \<and> DBL_OVERFLOW \<le> envelope_output (snd (ProcessCompressorBand
        (InitializeCompressor zero_compressor) (1 / 2) 1 1 ENVELOPE_TIME_CONSTANT))"
  using envelope_output_unbounded [of "1 / 2" zero_compressor 1 1]
  by (simp add: InitializeCompressor_def)


text \<open>
  C7 at a failing input. \<open>settled_quiet\<close> and \<open>settled_loud\<close> differ only in the
  settled envelope; both calls take the main path above the threshold and leave the
  envelope settled, and the call with the higher input power stores the greater
  \<open>envelope_output\<close>.
\<close>

theorem downward_gain_rises_with_level:
  "rms_smoother (snd (ProcessCompressorBand settled_quiet 0 1 1 1)) = rms_smoother settled_quiet
   \<and> gain_reduction (snd (ProcessCompressorBand settled_quiet 0 1 1 1))
       = gain_reduction settled_quiet
   \<and> rms_smoother (snd (ProcessCompressorBand settled_loud 1 1 1 1)) = rms_smoother settled_loud
   \<and> gain_reduction (snd (ProcessCompressorBand settled_loud 1 1 1 1))
       = gain_reduction settled_loud
   \<and> threshold settled_quiet < gain_reduction settled_quiet
   \<and> threshold settled_loud < gain_reduction settled_loud
   \<and> envelope_output (snd (ProcessCompressorBand settled_quiet 0 1 1 1))
       < envelope_output (snd (ProcessCompressorBand settled_loud 1 1 1 1))"
proof -
  define m where "m = ln (1 + 1 / 10 ^ 30) * LOG_SCALE_FACTOR + 1"
  have m: "1 \<le> m" using loud_level(2) by (simp add: m_def)
  have q: "ratio_state settled_quiet \<le> NEGATIVE_THRESHOLD"
      "rms_smoother settled_quiet = 0"
      "max 0 (ln (sqrt 0 + 1 / 10 ^ 30) * LOG_SCALE_FACTOR - threshold settled_quiet) = 0"
      "gain_reduction settled_quiet = 0"
      "threshold settled_quiet < 0"
    using quiet_level
    by (simp_all add: settled_quiet_def settled_base_def zero_compressor_def)
  have h: "ratio_state settled_loud \<le> NEGATIVE_THRESHOLD"
      "rms_smoother settled_loud = 1"
      "max 0 (ln (sqrt 1 + 1 / 10 ^ 30) * LOG_SCALE_FACTOR - threshold settled_loud) = m"
      "gain_reduction settled_loud = m"
      "threshold settled_loud < m"
    using loud_level(1) m
    by (simp_all add: settled_loud_def settled_base_def zero_compressor_def m_def)
  note ql = main_path_downward [OF q(1) order_refl q(2) q(3) q(4) q(5), of 1 1 1]
  note hl = main_path_downward [OF h(1) zero_le_one h(2) h(3) h(4) h(5), of 1 1 1]
  have e3: "exp (1::real) \<le> 3" by (rule exp_le)
  have "min (exp (1::real)) MAX_COMPRESSION_RATIO = exp 1"
    using e3 constants_sign(6) by (simp add: min_def)
  then have quiet: "envelope_output (snd (ProcessCompressorBand settled_quiet 0 1 1 1)) = exp (exp 1)"
    using ql(3)
    by (simp add: settled_quiet_def settled_base_def zero_compressor_def)
  have "exp (1::real) < exp (m + 1)" using m by simp
  moreover have "exp (1::real) < MAX_COMPRESSION_RATIO"
    using e3 by (simp add: MAX_COMPRESSION_RATIO_def)
  ultimately have "exp 1 < min (exp (m + 1)) MAX_COMPRESSION_RATIO" by simp
  then have loud: "exp (exp 1)
      < envelope_output (snd (ProcessCompressorBand settled_loud 1 1 1 1))"
    using hl(3)
    by (simp add: settled_loud_def settled_base_def zero_compressor_def)
  show ?thesis
    using quiet loud ql(1,2) hl(1,2) m
    by (simp add: settled_quiet_def settled_loud_def settled_base_def zero_compressor_def m_def)
qed



section \<open>The processing call\<close>

text \<open>
  The equations of the loops are unfolded one iteration at a time, at the place a proof
  names.
\<close>

declare copy_block.simps [simp del] peak_single.simps [simp del] peak_quad.simps [simp del]
  peak_rest.simps [simp del] filter_loop.simps [simp del] compress_loop.simps [simp del]

subsection \<open>Checked buffer access\<close>

lemma wr_buf_Some:
  assumes "wr_buf bs k i v = Some bs'"
  shows "k < length bs" "i < length (bs ! k)" "bs' = bs[k := (bs ! k)[i := v]]"
    "map length bs' = map length bs"
proof -
  show a: "k < length bs" "i < length (bs ! k)" "bs' = bs[k := (bs ! k)[i := v]]"
    using assms by (auto simp add: wr_buf_def split: if_splits)
  show "map length bs' = map length bs"
    using a by (simp add: list_eq_iff_nth_eq nth_list_update)
qed

lemma wr_buf_ok:
  assumes "map length bs = replicate m n" "k < m" "i < n"
  shows "\<exists>bs'. wr_buf bs k i v = Some bs' \<and> map length bs' = replicate m n"
proof -
  have "k < length bs" "i < length (bs ! k)"
    using assms shape_length [OF assms(1)] shape_nth [OF assms(1)] by simp_all
  then obtain bs' where w: "wr_buf bs k i v = Some bs'"
    by (simp add: wr_buf_def)
  then show ?thesis using wr_buf_Some(4) [OF w] assms(1) by simp
qed

lemma wr_buf_nth:
  assumes "wr_buf bs k i v = Some bs'"
  shows "bs' ! j ! q = (if j = k \<and> q = i then v else bs ! j ! q)"
  using wr_buf_Some [OF assms] by (auto simp add: nth_list_update)

lemma rd_buf_ok:
  "map length bs = replicate m n \<Longrightarrow> k < m \<Longrightarrow> i < n \<Longrightarrow> rd_buf bs k i = Some (bs ! k ! i)"
  using shape_length [of bs m n] shape_nth [of bs m n k] by (simp add: rd_buf_def)

lemma rd_buf_Some:
  "rd_buf bs k i = Some v \<Longrightarrow> k < length bs \<and> i < length (bs ! k) \<and> v = bs ! k ! i"
  by (auto simp add: rd_buf_def split: if_splits)

subsection \<open>Copying the bands to the delay buffers\<close>

lemma copy_bands_Some:
  "copy_bands c bb db i pos = Some db' \<Longrightarrow>
     map length db' = map length db
     \<and> (\<forall>j q. db' ! j ! q = (if j < c \<and> q = pos then bb ! j ! i else db ! j ! q))
     \<and> (0 < c \<longrightarrow> pos < length (db ! 0) \<and> i < length (bb ! 0))"
proof (induction c arbitrary: db')
  case 0
  then show ?case by simp
next
  case (Suc c)
  from Suc.prems obtain db1 v where
    c: "copy_bands c bb db i pos = Some db1" and r: "rd_buf bb c i = Some v"
    and w: "wr_buf db1 c pos v = Some db'"
    by (auto split: option.splits)
  note ih = Suc.IH [OF c]
  note ws = wr_buf_Some [OF w]
  note rs = rd_buf_Some [OF r]
  have len: "map length db' = map length db" using ih ws(4) by simp
  have nth: "\<forall>j q. db' ! j ! q = (if j < Suc c \<and> q = pos then bb ! j ! i else db ! j ! q)"
    using ih wr_buf_nth [OF w] rs by (auto simp add: less_Suc_eq)
  have first: "pos < length (db ! 0) \<and> i < length (bb ! 0)"
  proof (cases c)
    case 0
    have "length (db1 ! 0) = length (db ! 0)"
      using ih ws(1) 0 by (metis length_map nth_map)
    then show ?thesis using ws(2) rs 0 by simp
  next
    case (Suc c')
    then show ?thesis using ih by simp
  qed
  show ?case using len nth first by simp
qed

lemma copy_bands_ok:
  assumes "map length bb = replicate mb n" "map length db = replicate md n"
    and "c \<le> mb" "c \<le> md" "i < n" "pos < n"
  shows "\<exists>db'. copy_bands c bb db i pos = Some db' \<and> map length db' = replicate md n"
  using assms(3,4)
proof (induction c)
  case 0
  then show ?case using assms(2) by simp
next
  case (Suc c)
  then obtain db1 where c: "copy_bands c bb db i pos = Some db1"
    and l: "map length db1 = replicate md n" by auto
  have r: "rd_buf bb c i = Some (bb ! c ! i)"
    using assms(1) Suc.prems assms(5) by (intro rd_buf_ok) auto
  obtain db' where "wr_buf db1 c pos (bb ! c ! i) = Some db'" "map length db' = replicate md n"
    using wr_buf_ok [OF l, of c pos] Suc.prems assms(6) by auto
  then show ?case using c r by simp
qed


subsection \<open>One iteration of the filtering pass\<close>

lemma store_delay_Some:
  assumes "store_delay p bb inL inR i = Some p'"
  shows "\<exists>db db'. delayBuffers p = Some db
           \<and> p' = p\<lparr>bandBuffers := Some bb, delayBuffers := Some db',
                    bufferIndex := (if bufferIndex p + 1 \<ge> DELAY_BUFFER_SIZE then 0
                                    else bufferIndex p + 1)\<rparr>
           \<and> map length db' = map length db
           \<and> bufferIndex p < length (db ! 0) \<and> i < length (bb ! 0)
           \<and> (\<forall>j q. q \<noteq> bufferIndex p \<longrightarrow> db' ! j ! q = db ! j ! q)
           \<and> (\<forall>j<6. db' ! j ! bufferIndex p = bb ! j ! i)
           \<and> db' ! 6 ! bufferIndex p = inL \<and> db' ! 7 ! bufferIndex p = inR"
proof -
  from assms obtain db db1 db2 db3 where
    d: "delayBuffers p = Some db"
    and c: "copy_bands 6 bb db i (bufferIndex p) = Some db1"
    and w1: "wr_buf db1 6 (bufferIndex p) inL = Some db2"
    and w2: "wr_buf db2 7 (bufferIndex p) inR = Some db3"
    and p': "p' = p\<lparr>bandBuffers := Some bb, delayBuffers := Some db3,
                    bufferIndex := (if bufferIndex p + 1 \<ge> DELAY_BUFFER_SIZE then 0
                                    else bufferIndex p + 1)\<rparr>"
    by (auto simp add: store_delay_def Let_def split: option.splits)
  note cs = copy_bands_Some [OF c]
  have len: "map length db3 = map length db"
    using cs wr_buf_Some(4) [OF w1] wr_buf_Some(4) [OF w2] by simp
  have nth: "\<And>j q. db3 ! j ! q =
      (if j = 7 \<and> q = bufferIndex p then inR
       else if j = 6 \<and> q = bufferIndex p then inL
       else if j < 6 \<and> q = bufferIndex p then bb ! j ! i else db ! j ! q)"
    using cs by (simp add: wr_buf_nth [OF w1] wr_buf_nth [OF w2])
  show ?thesis
    using d p' len cs by (auto simp add: nth)
qed

lemma store_delay_ok:
  assumes "delayBuffers p = Some db" "map length db = replicate 8 DELAY_BUFFER_SIZE"
    and "map length bb = replicate 6 DELAY_BUFFER_SIZE"
    and "i < DELAY_BUFFER_SIZE" "bufferIndex p < DELAY_BUFFER_SIZE"
  shows "\<exists>p'. store_delay p bb inL inR i = Some p'"
proof -
  obtain db1 where c: "copy_bands 6 bb db i (bufferIndex p) = Some db1"
    and l1: "map length db1 = replicate 8 DELAY_BUFFER_SIZE"
    using copy_bands_ok [OF assms(3) assms(2) _ _ assms(4) assms(5), of 6] by auto
  obtain db2 where w1: "wr_buf db1 6 (bufferIndex p) inL = Some db2"
    and l2: "map length db2 = replicate 8 DELAY_BUFFER_SIZE"
    using wr_buf_ok [OF l1 _ assms(5), of 6] by auto
  obtain db3 where w2: "wr_buf db2 7 (bufferIndex p) inR = Some db3"
    using wr_buf_ok [OF l2 _ assms(5), of 7] by auto
  show ?thesis
    by (simp add: store_delay_def Let_def assms(1) c w1 w2)
qed

text \<open>What a successful iteration does to the fields the two passes share.\<close>

lemma store_delay_effect:
  assumes s: "store_delay q bb' inL inR i = Some p'"
    and q: "delayBuffers q = delayBuffers p" "bufferIndex q = bufferIndex p" "config q = config p"
    and b: "buffers_ok p" "map length bb' = replicate 6 DELAY_BUFFER_SIZE"
  shows "buffers_ok p' \<and> config p' = config p \<and> i < DELAY_BUFFER_SIZE
         \<and> bufferIndex p < DELAY_BUFFER_SIZE
         \<and> bufferIndex p' = (bufferIndex p + 1) mod DELAY_BUFFER_SIZE
         \<and> (\<exists>db db'. delayBuffers p = Some db \<and> delayBuffers p' = Some db'
               \<and> (\<forall>j q. q \<noteq> bufferIndex p \<longrightarrow> db' ! j ! q = db ! j ! q))"
proof -
  from store_delay_Some [OF s] obtain db db' where
    d: "delayBuffers q = Some db"
    and p': "p' = q\<lparr>bandBuffers := Some bb', delayBuffers := Some db',
                    bufferIndex := (if bufferIndex q + 1 \<ge> DELAY_BUFFER_SIZE then 0
                                    else bufferIndex q + 1)\<rparr>"
    and len: "map length db' = map length db"
    and pos: "bufferIndex q < length (db ! 0)" and i: "i < length (bb' ! 0)"
    and fr: "\<forall>j q'. q' \<noteq> bufferIndex q \<longrightarrow> db' ! j ! q' = db ! j ! q'"
    by blast
  have dshape: "map length db = replicate 8 DELAY_BUFFER_SIZE"
    using b(1) d q(1) by (simp add: buffers_ok_def buffers_shape_def)
  have i': "i < DELAY_BUFFER_SIZE" using i shape_nth [OF b(2), of 0] by simp
  have pos': "bufferIndex p < DELAY_BUFFER_SIZE"
    using pos shape_nth [OF dshape, of 0] q(2) by simp
  have ok: "buffers_ok p'"
    using p' len dshape b(2) by (simp add: buffers_ok_def buffers_shape_def)
  have cf: "config p' = config p" using p' q(3) by (simp add: config_def)
  have bi: "bufferIndex p' = (bufferIndex p + 1) mod DELAY_BUFFER_SIZE"
    using p' q(2) pos' by (auto simp add: mod_Suc le_eq_less_or_eq)
  show ?thesis
    using ok cf i' pos' bi d q(1,2) p' fr by auto
qed


lemma simple_step_store:
  assumes "simple_step p ins rc i = Some p'"
  shows "\<exists>q bb bb' inL inR.
           store_delay q bb' inL inR i = Some p'
           \<and> delayBuffers q = delayBuffers p \<and> bufferIndex q = bufferIndex p
           \<and> config q = config p
           \<and> bandBuffers p = Some bb \<and> map length bb' = map length bb
           \<and> rd_sample ins 0 i = Some inL \<and> rd_sample ins rc i = Some inR"
proof -
  from assms obtain inL inR bb where
    r: "rd_sample ins 0 i = Some inL" "rd_sample ins rc i = Some inR" "bandBuffers p = Some bb"
    by (auto simp add: simple_step_def split: option.splits)
  from assms r obtain q v1 v2 v3 v4 bb1 bb2 bb3 bb4 where
    w: "wr_buf bb 0 i v1 = Some bb1" "wr_buf bb1 1 i v2 = Some bb2"
       "wr_buf bb2 4 i v3 = Some bb3" "wr_buf bb3 5 i v4 = Some bb4"
    and s: "store_delay q bb4 inL inR i = Some p'"
    and q: "delayBuffers q = delayBuffers p" "bufferIndex q = bufferIndex p"
       "config q = config p"
    by (auto simp add: simple_step_def Let_def config_def split: option.splits)
  have "map length bb4 = map length bb"
    using wr_buf_Some(4) [OF w(1)] wr_buf_Some(4) [OF w(2)] wr_buf_Some(4) [OF w(3)]
      wr_buf_Some(4) [OF w(4)] by simp
  then show ?thesis using s q r by blast
qed

lemma advanced_step_store:
  assumes "advanced_step p ins rc i = Some p'"
  shows "\<exists>q bb bb' inL inR.
           store_delay q bb' inL inR i = Some p'
           \<and> delayBuffers q = delayBuffers p \<and> bufferIndex q = bufferIndex p
           \<and> config q = config p
           \<and> bandBuffers p = Some bb \<and> map length bb' = map length bb
           \<and> rd_sample ins 0 i = Some inL \<and> rd_sample ins rc i = Some inR"
proof -
  from assms obtain inL inR bb where
    r: "rd_sample ins 0 i = Some inL" "rd_sample ins rc i = Some inR" "bandBuffers p = Some bb"
    by (auto simp add: advanced_step_def split: option.splits)
  from assms r obtain q v1 v2 v3 v4 v5 v6 bb1 bb2 bb3 bb4 bb5 bb6 where
    w: "wr_buf bb 0 i v1 = Some bb1" "wr_buf bb1 1 i v2 = Some bb2"
       "wr_buf bb2 2 i v3 = Some bb3" "wr_buf bb3 3 i v4 = Some bb4"
       "wr_buf bb4 4 i v5 = Some bb5" "wr_buf bb5 5 i v6 = Some bb6"
    and s: "store_delay q bb6 inL inR i = Some p'"
    and q: "delayBuffers q = delayBuffers p" "bufferIndex q = bufferIndex p"
       "config q = config p"
    by (auto simp add: advanced_step_def Let_def config_def split: option.splits)
  have "map length bb6 = map length bb"
    using wr_buf_Some(4) [OF w(1)] wr_buf_Some(4) [OF w(2)] wr_buf_Some(4) [OF w(3)]
      wr_buf_Some(4) [OF w(4)] wr_buf_Some(4) [OF w(5)] wr_buf_Some(4) [OF w(6)] by simp
  then show ?thesis using s q r by blast
qed


lemma filter_step_effect:
  assumes "(if adv then advanced_step p ins rc i else simple_step p ins rc i) = Some p'"
    and "buffers_ok p"
  shows "buffers_ok p' \<and> config p' = config p \<and> i < DELAY_BUFFER_SIZE
         \<and> bufferIndex p < DELAY_BUFFER_SIZE
         \<and> bufferIndex p' = (bufferIndex p + 1) mod DELAY_BUFFER_SIZE
         \<and> (\<exists>db db'. delayBuffers p = Some db \<and> delayBuffers p' = Some db'
               \<and> (\<forall>j q. q \<noteq> bufferIndex p \<longrightarrow> db' ! j ! q = db ! j ! q))"
proof -
  from assms(1) obtain q bb bb' inL inR where
    s: "store_delay q bb' inL inR i = Some p'"
    and q: "delayBuffers q = delayBuffers p" "bufferIndex q = bufferIndex p" "config q = config p"
    and b: "bandBuffers p = Some bb" "map length bb' = map length bb"
    using simple_step_store [of p ins rc i p'] advanced_step_store [of p ins rc i p']
    by (cases adv) auto
  have "map length bb' = replicate 6 DELAY_BUFFER_SIZE"
    using b assms(2) by (simp add: buffers_ok_def buffers_shape_def)
  then show ?thesis
    using store_delay_effect [OF s q assms(2)] by simp
qed

lemma wr_buf_case_ok:
  assumes "map length bs = replicate 6 DELAY_BUFFER_SIZE" "k < 6" "i < DELAY_BUFFER_SIZE"
    and "\<And>bs'. map length bs' = replicate 6 DELAY_BUFFER_SIZE \<Longrightarrow> \<exists>r. K bs' = Some r"
  shows "\<exists>r. (case wr_buf bs k i v of None \<Rightarrow> None | Some bs' \<Rightarrow> K bs') = Some r"
proof -
  obtain bs' where "wr_buf bs k i v = Some bs'" "map length bs' = replicate 6 DELAY_BUFFER_SIZE"
    using wr_buf_ok [OF assms(1-3)] by auto
  then show ?thesis using assms(4) by simp
qed

lemma filter_step_ok:
  assumes "buffers_ok p" "bufferIndex p < DELAY_BUFFER_SIZE" "i < DELAY_BUFFER_SIZE"
    and "rd_sample ins 0 i \<noteq> None" "rd_sample ins rc i \<noteq> None"
  shows "\<exists>p'. (if adv then advanced_step p ins rc i else simple_step p ins rc i) = Some p'"
proof -
  obtain bb db where b: "bandBuffers p = Some bb" "delayBuffers p = Some db"
    and sb: "map length bb = replicate 6 DELAY_BUFFER_SIZE"
    and sd: "map length db = replicate 8 DELAY_BUFFER_SIZE"
    using assms(1) by (auto simp add: buffers_ok_def buffers_shape_def split: option.splits)
  obtain inL inR where r: "rd_sample ins 0 i = Some inL" "rd_sample ins rc i = Some inR"
    using assms(4,5) by auto
  have st: "\<And>q bbx. delayBuffers q = Some db \<Longrightarrow> bufferIndex q = bufferIndex p \<Longrightarrow>
      map length bbx = replicate 6 DELAY_BUFFER_SIZE \<Longrightarrow>
      \<exists>p'. store_delay q bbx inL inR i = Some p'"
    using store_delay_ok [OF _ sd _ assms(3)] assms(2) by simp
  show ?thesis
  proof (cases adv)
    case True
    have "\<exists>p'. advanced_step p ins rc i = Some p'"
      unfolding advanced_step_def Let_def r b prod.case option.case
      by (intro wr_buf_case_ok sb assms(3) st) (simp_all add: b)
    then show ?thesis using True by simp
  next
    case False
    have "\<exists>p'. simple_step p ins rc i = Some p'"
      unfolding simple_step_def Let_def r b prod.case option.case
      by (intro wr_buf_case_ok sb assms(3) st) (simp_all add: b)
    then show ?thesis using False by simp
  qed
qed

text \<open>What the iteration stores at the write cursor.\<close>

lemma filter_step_written:
  assumes "(if adv then advanced_step p ins rc i else simple_step p ins rc i) = Some p'"
  shows "\<exists>db' bb'. delayBuffers p' = Some db' \<and> bandBuffers p' = Some bb'
           \<and> (\<forall>j<6. db' ! j ! bufferIndex p = bb' ! j ! i)
           \<and> rd_sample ins 0 i = Some (db' ! 6 ! bufferIndex p)
           \<and> rd_sample ins rc i = Some (db' ! 7 ! bufferIndex p)"
proof -
  from assms obtain q bb bb' inL inR where
    s: "store_delay q bb' inL inR i = Some p'"
    and q: "bufferIndex q = bufferIndex p"
    and r: "rd_sample ins 0 i = Some inL" "rd_sample ins rc i = Some inR"
    using simple_step_store [of p ins rc i p'] advanced_step_store [of p ins rc i p']
    by (cases adv) auto
  from store_delay_Some [OF s] show ?thesis
    using q r by auto
qed

lemma filter_loop_single:
  assumes "filter_loop adv p ins rc i (Suc i) = Some p'"
  shows "(if adv then advanced_step p ins rc i else simple_step p ins rc i) = Some p'"
  using assms
  by (auto simp add: filter_loop.simps [of adv p ins rc i "Suc i"]
      filter_loop.simps [of adv _ ins rc "Suc i" "Suc i"] split: option.splits)

subsection \<open>The filtering loop\<close>

lemma filter_loop_effect:
  assumes "filter_loop adv p ins rc i n = Some p'"
    and "buffers_ok p" "bufferIndex p < DELAY_BUFFER_SIZE"
  shows "buffers_ok p' \<and> config p' = config p
         \<and> bufferIndex p' = (bufferIndex p + (n - i)) mod DELAY_BUFFER_SIZE
         \<and> (\<exists>db db'. delayBuffers p = Some db \<and> delayBuffers p' = Some db'
               \<and> (\<forall>pos. (\<forall>t<n - i. (bufferIndex p + t) mod DELAY_BUFFER_SIZE \<noteq> pos)
                     \<longrightarrow> (\<forall>j. db' ! j ! pos = db ! j ! pos)))"
  using assms
proof (induction adv p ins rc i n rule: filter_loop.induct)
  case (1 adv p ins rc i n)
  show ?case
  proof (cases "i < n")
    case False
    then have "p' = p" using "1.prems"(1) by (simp add: filter_loop.simps [of adv p ins rc i n])
    moreover obtain db where "delayBuffers p = Some db"
      using "1.prems"(2) by (auto simp add: buffers_ok_def buffers_shape_def split: option.splits)
    ultimately show ?thesis using False "1.prems" by simp
  next
    case True
    then obtain p1 where
      st: "(if adv then advanced_step p ins rc i else simple_step p ins rc i) = Some p1"
      and lp: "filter_loop adv p1 ins rc (i + 1) n = Some p'"
      using "1.prems"(1)
      by (auto simp add: filter_loop.simps [of adv p ins rc i n] split: option.splits)
    from filter_step_effect [OF st "1.prems"(2)] obtain db db1 where
      e: "buffers_ok p1" "config p1 = config p"
         "bufferIndex p1 = (bufferIndex p + 1) mod DELAY_BUFFER_SIZE"
      and d: "delayBuffers p = Some db" "delayBuffers p1 = Some db1"
         "\<forall>j q. q \<noteq> bufferIndex p \<longrightarrow> db1 ! j ! q = db ! j ! q"
      by blast
    have b1: "bufferIndex p1 < DELAY_BUFFER_SIZE"
      using e(3) by (simp add: DELAY_BUFFER_SIZE_def)
    from "1.IH" [OF True st lp e(1) b1] obtain db' where
      ih: "buffers_ok p'" "config p' = config p1"
        "bufferIndex p' = (bufferIndex p1 + (n - (i + 1))) mod DELAY_BUFFER_SIZE"
        "delayBuffers p' = Some db'"
        "\<forall>pos. (\<forall>t<n - (i + 1). (bufferIndex p1 + t) mod DELAY_BUFFER_SIZE \<noteq> pos)
                     \<longrightarrow> (\<forall>j. db' ! j ! pos = db1 ! j ! pos)"
      using d(2) by auto
    have bi: "bufferIndex p' = (bufferIndex p + (n - i)) mod DELAY_BUFFER_SIZE"
    proof -
      have "(bufferIndex p1 + (n - (i + 1))) mod DELAY_BUFFER_SIZE
          = (bufferIndex p + 1 + (n - (i + 1))) mod DELAY_BUFFER_SIZE"
        unfolding e(3) by (rule mod_add_left_eq)
      also have "bufferIndex p + 1 + (n - (i + 1)) = bufferIndex p + (n - i)"
        using True by simp
      finally show ?thesis using ih(3) by simp
    qed
    have fr: "\<forall>j. db' ! j ! pos = db ! j ! pos"
      if h: "\<forall>t<n - i. (bufferIndex p + t) mod DELAY_BUFFER_SIZE \<noteq> pos" for pos
    proof -
      have "0 < n - i" using True by simp
      then have "(bufferIndex p + 0) mod DELAY_BUFFER_SIZE \<noteq> pos" using h by blast
      then have ne: "pos \<noteq> bufferIndex p" using "1.prems"(3) by auto
      have "(bufferIndex p1 + t) mod DELAY_BUFFER_SIZE \<noteq> pos" if "t < n - (i + 1)" for t
      proof -
        have "(bufferIndex p1 + t) mod DELAY_BUFFER_SIZE
            = (bufferIndex p + 1 + t) mod DELAY_BUFFER_SIZE"
          unfolding e(3) by (rule mod_add_left_eq)
        moreover have "Suc t < n - i" using that by simp
        ultimately show ?thesis using h by (metis add.assoc plus_1_eq_Suc)
      qed
      then have "\<forall>j. db' ! j ! pos = db1 ! j ! pos" using ih(5) by simp
      then show ?thesis using d(3) ne by simp
    qed
    show ?thesis using ih(1,2,4) e(2) bi d(1) fr by simp
  qed
qed

lemma filter_loop_ok:
  assumes "buffers_ok p" "bufferIndex p < DELAY_BUFFER_SIZE" "n \<le> DELAY_BUFFER_SIZE"
    and "\<forall>k<n. rd_sample ins 0 k \<noteq> None \<and> rd_sample ins rc k \<noteq> None"
  shows "\<exists>p'. filter_loop adv p ins rc i n = Some p'"
  using assms
proof (induction adv p ins rc i n rule: filter_loop.induct)
  case (1 adv p ins rc i n)
  show ?case
  proof (cases "i < n")
    case False
    then show ?thesis by (simp add: filter_loop.simps [of adv p ins rc i n])
  next
    case True
    then have "i < DELAY_BUFFER_SIZE" using "1.prems"(3) by simp
    then obtain p1 where
      st: "(if adv then advanced_step p ins rc i else simple_step p ins rc i) = Some p1"
      using filter_step_ok [OF "1.prems"(1,2), of i ins rc adv] "1.prems"(4) True by auto
    from filter_step_effect [OF st "1.prems"(1)] have
      e: "buffers_ok p1" "bufferIndex p1 = (bufferIndex p + 1) mod DELAY_BUFFER_SIZE"
      by auto
    have b1: "bufferIndex p1 < DELAY_BUFFER_SIZE"
      using e(2) by (simp add: DELAY_BUFFER_SIZE_def)
    from "1.IH" [OF True st e(1) b1 "1.prems"(3,4)] obtain p' where
      "filter_loop adv p1 ins rc (i + 1) n = Some p'" by auto
    then show ?thesis
      using True st by (simp add: filter_loop.simps [of adv p ins rc i n])
  qed
qed

lemma filter_loop_split:
  "i \<le> k \<Longrightarrow> k \<le> n \<Longrightarrow>
   filter_loop adv p ins rc i n =
     (case filter_loop adv p ins rc i k of
        None \<Rightarrow> None
      | Some q \<Rightarrow> filter_loop adv q ins rc k n)"
proof (induction "k - i" arbitrary: i p)
  case 0
  then have "i = k" by simp
  then show ?case by (simp add: filter_loop.simps [of adv p ins rc k k])
next
  case (Suc d)
  then have ik: "i < k" "i < n" by simp_all
  have d: "d = k - (i + 1)" using Suc.hyps(2) by simp
  have le: "i + 1 \<le> k" using ik by simp
  show ?case
  proof (cases "if adv then advanced_step p ins rc i else simple_step p ins rc i")
    case None
    then show ?thesis
      using ik by (simp add: filter_loop.simps [of adv p ins rc i n]
          filter_loop.simps [of adv p ins rc i k])
  next
    case (Some p1)
    have "filter_loop adv p ins rc i n = filter_loop adv p1 ins rc (i + 1) n"
      using ik Some by (simp add: filter_loop.simps [of adv p ins rc i n])
    also have "\<dots> = (case filter_loop adv p1 ins rc (i + 1) k of
        None \<Rightarrow> None | Some q \<Rightarrow> filter_loop adv q ins rc k n)"
      using Suc.hyps(1) [OF d le Suc.prems(2)] .
    also have "filter_loop adv p1 ins rc (i + 1) k = filter_loop adv p ins rc i k"
      using ik Some by (simp add: filter_loop.simps [of adv p ins rc i k])
    finally show ?thesis .
  qed
qed


subsection \<open>Channel access\<close>

lemma chan_ready_mono: "chan_ready cs c n \<Longrightarrow> k \<le> n \<Longrightarrow> chan_ready cs c k"
  by (auto simp add: chan_ready_def split: option.splits)

lemma rd_sample_ok: "chan_ready cs c n \<Longrightarrow> i < n \<Longrightarrow> rd_sample cs c i \<noteq> None"
  by (auto simp add: chan_ready_def rd_sample_def chan_ptr_def split: option.splits)

lemma wr_sample_Some:
  assumes "wr_sample cs ch i v = Some cs'"
  shows "length cs' = length cs" "chan_ready cs' c n = chan_ready cs c n"
    "c \<noteq> ch \<Longrightarrow> cs' ! c = cs ! c"
  using assms
  by (auto simp add: wr_sample_def chan_ptr_def chan_ready_def nth_list_update
      split: option.splits if_splits)

lemma wr_sample_case_ok:
  assumes "chan_ready cs ch n" "i < n"
    and "\<And>cs'. (\<forall>c. chan_ready cs' c n = chan_ready cs c n) \<Longrightarrow> \<exists>r. K cs' = Some r"
  shows "\<exists>r. (case wr_sample cs ch i v of None \<Rightarrow> None | Some cs' \<Rightarrow> K cs') = Some r"
proof -
  obtain cs' where w: "wr_sample cs ch i v = Some cs'"
    using assms(1,2)
    by (auto simp add: wr_sample_def chan_ptr_def chan_ready_def split: option.splits)
  then show ?thesis using assms(3) wr_sample_Some(2) [OF w] by simp
qed

subsection \<open>The compression loop\<close>

lemma compress_step_effect:
  assumes "compress_step p outs i = Some (p', outs')" and "buffers_ok p"
  shows "buffers_ok p' \<and> config p' = config p \<and> delayBuffers p' = delayBuffers p
         \<and> bandBuffers p' = bandBuffers p \<and> bufferIndex p' = bufferIndex p
         \<and> writeIndex p < DELAY_BUFFER_SIZE
         \<and> writeIndex p' = (writeIndex p + 1) mod DELAY_BUFFER_SIZE
         \<and> length outs' = length outs
         \<and> (\<forall>c n. chan_ready outs' c n = chan_ready outs c n)
         \<and> (\<forall>c. c \<noteq> 0 \<longrightarrow> c \<noteq> outputChannelIndex p \<longrightarrow> outs' ! c = outs ! c)"
proof -
  from assms(1) obtain db v0 outs1 fl fr where
    d: "delayBuffers p = Some db"
    and r: "rd_buf db 0 (writeIndex p) = Some v0"
    and w: "wr_sample outs 0 i fl = Some outs1"
       "wr_sample outs1 (outputChannelIndex p) i fr = Some outs'"
    and p': "writeIndex p' = (if writeIndex p + 1 \<ge> DELAY_BUFFER_SIZE then 0
                              else writeIndex p + 1)"
       "delayBuffers p' = delayBuffers p" "bandBuffers p' = bandBuffers p"
       "bufferIndex p' = bufferIndex p" "config p' = config p"
    by (auto simp add: compress_step_def Let_def case_prod_beta config_def
        split: option.splits)
  have sd: "map length db = replicate 8 DELAY_BUFFER_SIZE"
    using assms(2) d by (simp add: buffers_ok_def buffers_shape_def)
  have wi: "writeIndex p < DELAY_BUFFER_SIZE"
    using rd_buf_Some [OF r] shape_nth [OF sd, of 0] by simp
  have ok: "buffers_ok p'" using assms(2) p' by (simp add: buffers_ok_def)
  have wn: "writeIndex p' = (writeIndex p + 1) mod DELAY_BUFFER_SIZE"
    using p'(1) wi by (auto simp add: mod_Suc le_eq_less_or_eq)
  show ?thesis
    using ok wi wn p' wr_sample_Some [OF w(1)] wr_sample_Some [OF w(2)] by simp
qed

lemma compress_step_ok:
  assumes "buffers_ok p" "writeIndex p < DELAY_BUFFER_SIZE"
    and "chan_ready outs 0 n" "chan_ready outs (outputChannelIndex p) n" "i < n"
  shows "\<exists>r. compress_step p outs i = Some r"
proof -
  obtain db where d: "delayBuffers p = Some db"
    and sd: "map length db = replicate 8 DELAY_BUFFER_SIZE"
    using assms(1) by (auto simp add: buffers_ok_def buffers_shape_def split: option.splits)
  have r: "\<And>k. k < 8 \<Longrightarrow> rd_buf db k (writeIndex p) = Some (db ! k ! writeIndex p)"
    using rd_buf_ok [OF sd _ assms(2)] by simp
  show ?thesis
    apply (simp add: compress_step_def Let_def d r case_prod_beta
        split del: if_split del: split_paired_Ex)
    apply (intro wr_sample_case_ok [where n = n] assms(3,5))
    apply (simp add: assms(4))
    apply blast
    done
qed

lemma compress_loop_effect:
  assumes "compress_loop p outs i n = Some (p', outs')"
    and "buffers_ok p" "writeIndex p < DELAY_BUFFER_SIZE"
  shows "buffers_ok p' \<and> config p' = config p \<and> delayBuffers p' = delayBuffers p
         \<and> bandBuffers p' = bandBuffers p \<and> bufferIndex p' = bufferIndex p
         \<and> writeIndex p' = (writeIndex p + (n - i)) mod DELAY_BUFFER_SIZE
         \<and> length outs' = length outs
         \<and> (\<forall>c m. chan_ready outs' c m = chan_ready outs c m)
         \<and> (\<forall>c. c \<noteq> 0 \<longrightarrow> c \<noteq> outputChannelIndex p \<longrightarrow> outs' ! c = outs ! c)"
  using assms
proof (induction p outs i n rule: compress_loop.induct)
  case (1 p outs i n)
  show ?case
  proof (cases "i < n")
    case False
    then show ?thesis
      using "1.prems" by (simp add: compress_loop.simps [of p outs i n])
  next
    case True
    then obtain p1 outs1 where
      st: "compress_step p outs i = Some (p1, outs1)"
      and lp: "compress_loop p1 outs1 (i + 1) n = Some (p', outs')"
      using "1.prems"(1)
      by (auto simp add: compress_loop.simps [of p outs i n] split: option.splits)
    note e = compress_step_effect [OF st "1.prems"(2)]
    have w1: "writeIndex p1 < DELAY_BUFFER_SIZE"
      using e by (simp add: DELAY_BUFFER_SIZE_def)
    have ih: "buffers_ok p' \<and> config p' = config p1 \<and> delayBuffers p' = delayBuffers p1
         \<and> bandBuffers p' = bandBuffers p1 \<and> bufferIndex p' = bufferIndex p1
         \<and> writeIndex p' = (writeIndex p1 + (n - (i + 1))) mod DELAY_BUFFER_SIZE
         \<and> length outs' = length outs1
         \<and> (\<forall>c m. chan_ready outs' c m = chan_ready outs1 c m)
         \<and> (\<forall>c. c \<noteq> 0 \<longrightarrow> c \<noteq> outputChannelIndex p1 \<longrightarrow> outs' ! c = outs1 ! c)"
      using "1.IH" [OF True st refl lp _ w1] e by simp
    have oc: "outputChannelIndex p1 = outputChannelIndex p"
      using e by (simp add: config_def)
    have wi: "writeIndex p' = (writeIndex p + (n - i)) mod DELAY_BUFFER_SIZE"
    proof -
      have "(writeIndex p1 + (n - (i + 1))) mod DELAY_BUFFER_SIZE
          = (writeIndex p + 1 + (n - (i + 1))) mod DELAY_BUFFER_SIZE"
        using e by (simp add: mod_add_left_eq)
      also have "writeIndex p + 1 + (n - (i + 1)) = writeIndex p + (n - i)"
        using True by simp
      finally show ?thesis using ih by simp
    qed
    show ?thesis using ih e wi oc by simp
  qed
qed

lemma compress_loop_ok:
  assumes "buffers_ok p" "writeIndex p < DELAY_BUFFER_SIZE"
    and "chan_ready outs 0 n" "chan_ready outs (outputChannelIndex p) n"
  shows "\<exists>r. compress_loop p outs i n = Some r"
  using assms
proof (induction p outs i n rule: compress_loop.induct)
  case (1 p outs i n)
  show ?case
  proof (cases "i < n")
    case False
    then show ?thesis by (simp add: compress_loop.simps [of p outs i n])
  next
    case True
    obtain p1 outs1 where st: "compress_step p outs i = Some (p1, outs1)"
      using compress_step_ok [OF "1.prems" True] by auto
    note e = compress_step_effect [OF st "1.prems"(1)]
    have w1: "writeIndex p1 < DELAY_BUFFER_SIZE"
      using e by (simp add: DELAY_BUFFER_SIZE_def)
    have oc: "outputChannelIndex p1 = outputChannelIndex p"
      using e by (simp add: config_def)
    have "\<exists>r. compress_loop p1 outs1 (i + 1) n = Some r"
      using "1.IH" [OF True st refl _ w1] e "1.prems"(3,4) oc by simp
    then show ?thesis
      using True st by (simp add: compress_loop.simps [of p outs i n])
  qed
qed



subsection \<open>What a compression iteration computes\<close>

lemma wr_sample_rd:
  assumes "wr_sample cs ch i v = Some cs'"
  shows "rd_sample cs' ch i = Some v"
    and "ch' \<noteq> ch \<or> i' \<noteq> i \<Longrightarrow> rd_sample cs' ch' i' = rd_sample cs ch' i'"
proof -
  from assms obtain xs where
    x: "ch < length cs" "cs ! ch = Some xs" "i < length xs" "cs' = cs[ch := Some (xs[i := v])]"
    by (auto simp add: wr_sample_def chan_ptr_def split: option.splits if_splits)
  show "rd_sample cs' ch i = Some v"
    using x by (simp add: rd_sample_def chan_ptr_def)
  show "rd_sample cs' ch' i' = rd_sample cs ch' i'" if "ch' \<noteq> ch \<or> i' \<noteq> i"
    using x that by (auto simp add: rd_sample_def chan_ptr_def nth_list_update)
qed

lemma compressed_sample_cong:
  "(\<And>b. b < 6 \<Longrightarrow> s b = s' b) \<Longrightarrow> compressed_sample p s = compressed_sample p s'"
  by (simp add: compressed_sample_def)

text \<open>
  A compression iteration reads the six band samples at the read cursor and makes of
  them what \<open>compressed_sample\<close> says: the compressors after the iteration, the right
  sample at the output channel index and the left sample at channel 0 (where the right
  one lands when the index is 0). No other sample of the output buffers changes.
\<close>

lemma compress_step_value:
  assumes st: "compress_step p outs i = Some (p', outs')" and d: "delayBuffers p = Some db"
    and cs: "compressed_sample p (\<lambda>b. db ! b ! writeIndex p) = (fl, fr, cl, cm, ch)"
  shows "compressorLow p' = cl \<and> compressorMid p' = cm \<and> compressorHigh p' = ch
         \<and> rd_sample outs' (outputChannelIndex p) i = Some fr
         \<and> rd_sample outs' 0 i = Some (if outputChannelIndex p = 0 then fr else fl)
         \<and> (\<forall>c i'. i' \<noteq> i \<longrightarrow> rd_sample outs' c i' = rd_sample outs c i')
         \<and> outputChannelIndex p' = outputChannelIndex p
         \<and> lowBandGain p' = lowBandGain p \<and> midBandGain p' = midBandGain p
         \<and> highBandGain p' = highBandGain p"
proof -
  from st d obtain v0 v1 v2 v3 v4 v5 where
    r: "rd_buf db 0 (writeIndex p) = Some v0" "rd_buf db 1 (writeIndex p) = Some v1"
       "rd_buf db 2 (writeIndex p) = Some v2" "rd_buf db 3 (writeIndex p) = Some v3"
       "rd_buf db 4 (writeIndex p) = Some v4" "rd_buf db 5 (writeIndex p) = Some v5"
    by (auto simp add: compress_step_def Let_def split: option.splits)
  have v: "db ! 0 ! writeIndex p = v0" "db ! 1 ! writeIndex p = v1" "db ! 2 ! writeIndex p = v2"
    "db ! 3 ! writeIndex p = v3" "db ! 4 ! writeIndex p = v4" "db ! 5 ! writeIndex p = v5"
    using r rd_buf_Some by blast+
  have v': "db ! Suc 0 ! writeIndex p = v1" using v(2) by simp
  have r': "rd_buf db (Suc 0) (writeIndex p) = Some v1" using r(2) by simp
  define so where "so = (finalGain p - fst (outputSmoother p)) * snd (outputSmoother p)
                          + fst (outputSmoother p)"
  define low where "low = ProcessCompressorBand (compressorLow p) (v0 * v0 + v1 * v1 + NOISE_FLOOR)
                            so (lowBandGain p) ENVELOPE_TIME_CONSTANT"
  define mid where "mid = ProcessCompressorBand (compressorMid p) (v2 * v2 + v3 * v3 + NOISE_FLOOR)
                            so (midBandGain p) ENVELOPE_TIME_CONSTANT"
  define high where "high = ProcessCompressorBand (compressorHigh p)
                              (v4 * v4 + v5 * v5 + NOISE_FLOOR) so (highBandGain p)
                              ENVELOPE_TIME_CONSTANT"
  have "compressed_sample p (\<lambda>b. db ! b ! writeIndex p)
      = ((v0 * fst low + v2 * fst mid + v4 * fst high) * so,
         (v1 * fst low + v3 * fst mid + v5 * fst high) * so, snd low, snd mid, snd high)"
    by (simp add: compressed_sample_def Let_def v v' so_def low_def mid_def high_def)
  then have e: "fl = (v0 * fst low + v2 * fst mid + v4 * fst high) * so"
    "fr = (v1 * fst low + v3 * fst mid + v5 * fst high) * so"
    "cl = snd low" "cm = snd mid" "ch = snd high"
    using cs by simp_all
  from st obtain outs1 where
    w: "wr_sample outs 0 i fl = Some outs1"
       "wr_sample outs1 (outputChannelIndex p) i fr = Some outs'"
    and p': "compressorLow p' = cl" "compressorMid p' = cm" "compressorHigh p' = ch"
       "outputChannelIndex p' = outputChannelIndex p"
       "lowBandGain p' = lowBandGain p" "midBandGain p' = midBandGain p"
       "highBandGain p' = highBandGain p"
    unfolding e
    by (auto simp add: compress_step_def Let_def case_prod_beta d r r' so_def low_def mid_def
        high_def split: option.splits)
  have right: "rd_sample outs' (outputChannelIndex p) i = Some fr"
    using wr_sample_rd(1) [OF w(2)] .
  have left: "rd_sample outs' 0 i = Some (if outputChannelIndex p = 0 then fr else fl)"
  proof (cases "outputChannelIndex p = 0")
    case True
    then show ?thesis using right by simp
  next
    case False
    then have "rd_sample outs' 0 i = rd_sample outs1 0 i"
      using wr_sample_rd(2) [OF w(2), of 0 i] by auto
    then show ?thesis using wr_sample_rd(1) [OF w(1)] False by simp
  qed
  have frame: "\<forall>c i'. i' \<noteq> i \<longrightarrow> rd_sample outs' c i' = rd_sample outs c i'"
    using wr_sample_rd(2) [OF w(1)] wr_sample_rd(2) [OF w(2)] by simp
  show ?thesis using p' right left frame by simp
qed

lemma compress_loop_single:
  "compress_loop p outs i (Suc i) = compress_step p outs i"
proof (cases "compress_step p outs i")
  case None
  then show ?thesis by (simp add: compress_loop.simps [of p outs i "Suc i"])
next
  case (Some r)
  obtain p' outs' where r: "r = (p', outs')" by (cases r)
  show ?thesis
    using Some r
    by (simp add: compress_loop.simps [of p outs i "Suc i"]
        compress_loop.simps [of p' outs' "Suc i" "Suc i"])
qed

lemma compress_loop_split:
  "i \<le> k \<Longrightarrow> k \<le> n \<Longrightarrow>
   compress_loop p outs i n =
     (case compress_loop p outs i k of
        None \<Rightarrow> None
      | Some (q, outs1) \<Rightarrow> compress_loop q outs1 k n)"
proof (induction "k - i" arbitrary: i p outs)
  case 0
  then have "i = k" by simp
  then show ?case by (simp add: compress_loop.simps [of p outs k k])
next
  case (Suc d)
  then have ik: "i < k" "i < n" by simp_all
  have d: "d = k - (i + 1)" using Suc.hyps(2) by simp
  have le: "i + 1 \<le> k" using ik by simp
  show ?case
  proof (cases "compress_step p outs i")
    case None
    then show ?thesis
      using ik by (simp add: compress_loop.simps [of p outs i n]
          compress_loop.simps [of p outs i k])
  next
    case (Some r)
    obtain p1 o1 where r: "r = (p1, o1)" by (cases r)
    have "compress_loop p outs i n = compress_loop p1 o1 (i + 1) n"
      using ik Some r by (simp add: compress_loop.simps [of p outs i n])
    also have "\<dots> = (case compress_loop p1 o1 (i + 1) k of
        None \<Rightarrow> None | Some (q, outs1) \<Rightarrow> compress_loop q outs1 k n)"
      using Suc.hyps(1) [OF d le Suc.prems(2)] .
    also have "compress_loop p1 o1 (i + 1) k = compress_loop p outs i k"
      using ik Some r by (simp add: compress_loop.simps [of p outs i k])
    finally show ?thesis .
  qed
qed

text \<open>The loop from iteration \<open>i\<close> on leaves the output samples before \<open>i\<close> alone.\<close>

lemma compress_step_frame:
  assumes "compress_step p outs i = Some (p', outs')"
  shows "\<forall>c i'. i' \<noteq> i \<longrightarrow> rd_sample outs' c i' = rd_sample outs c i'"
proof -
  from assms obtain outs1 fl fr where
    w: "wr_sample outs 0 i fl = Some outs1"
       "wr_sample outs1 (outputChannelIndex p) i fr = Some outs'"
    by (auto simp add: compress_step_def Let_def case_prod_beta split: option.splits)
  show ?thesis
    using wr_sample_rd(2) [OF w(1)] wr_sample_rd(2) [OF w(2)] by simp
qed

lemma compress_loop_frame:
  assumes "compress_loop p outs i n = Some (p', outs')"
  shows "\<forall>c i'. i' < i \<longrightarrow> rd_sample outs' c i' = rd_sample outs c i'"
  using assms
proof (induction p outs i n rule: compress_loop.induct)
  case (1 p outs i n)
  show ?case
  proof (cases "i < n")
    case False
    then show ?thesis using "1.prems" by (simp add: compress_loop.simps [of p outs i n])
  next
    case True
    then obtain p1 o1 where
      st: "compress_step p outs i = Some (p1, o1)"
      and lp: "compress_loop p1 o1 (i + 1) n = Some (p', outs')"
      using "1.prems"
      by (auto simp add: compress_loop.simps [of p outs i n] split: option.splits)
    have "\<forall>c i'. i' < i + 1 \<longrightarrow> rd_sample outs' c i' = rd_sample o1 c i'"
      using "1.IH" [OF True st refl lp] .
    then show ?thesis using compress_step_frame [OF st] by simp
  qed
qed


subsection \<open>Peak detection, bypass and channel setup\<close>

lemma peak_sample_ok:
  "rd_sample ins 0 i \<noteq> None \<Longrightarrow> rd_sample ins rc i \<noteq> None \<Longrightarrow>
   \<exists>e. peak_sample ins rc i env = Some e"
  by (auto simp add: peak_sample_def)

lemma peak_single_ok:
  assumes "\<forall>k<n. rd_sample ins 0 k \<noteq> None \<and> rd_sample ins rc k \<noteq> None" "i < n"
  shows "\<exists>e. peak_single ins rc n i env = Some e"
  using assms
proof (induction ins rc n i env rule: peak_single.induct)
  case (1 ins rc n i env)
  obtain e1 where s: "peak_sample ins rc i env = Some e1"
    using peak_sample_ok [of ins i rc env] "1.prems" by auto
  show ?case
  proof (cases "i + 1 < n")
    case True
    then show ?thesis
      using "1.IH" [OF s True "1.prems"(1) True] s
      by (simp add: peak_single.simps [of ins rc n i env])
  next
    case False
    then show ?thesis using s by (simp add: peak_single.simps [of ins rc n i env])
  qed
qed

lemma peak_four_ok:
  assumes "\<forall>k<n. rd_sample ins 0 k \<noteq> None \<and> rd_sample ins rc k \<noteq> None" "i + 3 < n"
  shows "\<exists>e. peak_four ins rc i env = Some e"
proof -
  obtain e1 where s1: "peak_sample ins rc i env = Some e1"
    using peak_sample_ok [of ins i rc env] assms by auto
  obtain e2 where s2: "peak_sample ins rc (i + 1) e1 = Some e2"
    using peak_sample_ok [of ins "i + 1" rc e1] assms by auto
  obtain e3 where s3: "peak_sample ins rc (i + 2) e2 = Some e3"
    using peak_sample_ok [of ins "i + 2" rc e2] assms by auto
  obtain e4 where s4: "peak_sample ins rc (i + 3) e3 = Some e4"
    using peak_sample_ok [of ins "i + 3" rc e3] assms by auto
  show ?thesis
    unfolding peak_four_def by (simp only: s1 s2 s3 s4 option.case) blast
qed

lemma peak_quad_ok:
  assumes "\<forall>k<n. rd_sample ins 0 k \<noteq> None \<and> rd_sample ins rc k \<noteq> None" "i + 3 < n"
  shows "\<exists>r. peak_quad ins rc n i env = Some r"
  using assms
proof (induction ins rc n i env rule: peak_quad.induct)
  case (1 ins rc n i env)
  obtain e1 where s: "peak_four ins rc i env = Some e1"
    using peak_four_ok [OF "1.prems", of env] by blast
  show ?case
  proof (cases "int (i + 4) < int n - 3")
    case True
    then have "i + 4 + 3 < n" by simp
    then show ?thesis
      using "1.IH" [OF s True "1.prems"(1)] s True
      by (simp add: peak_quad.simps [of ins rc n i env])
  next
    case False
    then show ?thesis using s by (simp add: peak_quad.simps [of ins rc n i env])
  qed
qed

lemma peak_rest_ok:
  assumes "\<forall>k<n. rd_sample ins 0 k \<noteq> None \<and> rd_sample ins rc k \<noteq> None"
  shows "\<exists>e. peak_rest ins rc n i env = Some e"
  using assms
proof (induction ins rc n i env rule: peak_rest.induct)
  case (1 ins rc n i env)
  show ?case
  proof (cases "i < n")
    case True
    obtain e1 where s: "peak_sample ins rc i env = Some e1"
      using peak_sample_ok [of ins i rc env] "1.prems" True by auto
    show ?thesis
      using "1.IH" [OF True s "1.prems"] True s
      by (simp add: peak_rest.simps [of ins rc n i env])
  next
    case False
    then show ?thesis by (simp add: peak_rest.simps [of ins rc n i env])
  qed
qed

lemma peak_detection_ok:
  assumes "\<forall>k<n. rd_sample ins 0 k \<noteq> None \<and> rd_sample ins rc k \<noteq> None"
  shows "\<exists>e. peak_detection ins rc n env = Some e"
proof (cases "n < 4")
  case True
  then show ?thesis
    using peak_single_ok [OF assms, of 0 env] by (auto simp add: peak_detection_def)
next
  case False
  then obtain j e where "peak_quad ins rc n 0 env = Some (j, e)"
    using peak_quad_ok [OF assms, of 0 env] by auto
  then show ?thesis
    using False peak_rest_ok [OF assms, of j e] by (auto simp add: peak_detection_def)
qed

lemma copy_block_ok:
  assumes "n \<le> length src" "n \<le> length dst"
  shows "\<exists>d. copy_block src dst i n = Some d \<and> length d = length dst"
  using assms
proof (induction src dst i n rule: copy_block.induct)
  case (1 src dst i n)
  show ?case
  proof (cases "i < n")
    case True
    then have r: "i < length src \<and> i < length dst" using "1.prems" by simp
    have "\<exists>d. copy_block src (dst[i := src ! i]) (i + 1) n = Some d
        \<and> length d = length (dst[i := src ! i])"
      using "1.IH" [OF True r] "1.prems" by simp
    then show ?thesis
      by (simp add: copy_block.simps [of src dst i n] True r)
  next
    case False
    then show ?thesis by (simp add: copy_block.simps [of src dst i n])
  qed
qed

lemma bypass_channel_ok:
  assumes "length ins = 2" "length outs = 2" "c < 2"
    and "case ins ! c of None \<Rightarrow> True | Some b \<Rightarrow> n \<le> length b"
    and "case outs ! c of None \<Rightarrow> True | Some b \<Rightarrow> n \<le> length b"
  shows "\<exists>outs'. bypass_channel ins outs c n = Some outs' \<and> length outs' = 2
           \<and> (\<forall>k. k \<noteq> c \<longrightarrow> outs' ! k = outs ! k)"
proof (cases "ins ! c")
  case None
  then show ?thesis using assms by (simp add: bypass_channel_def chan_ptr_def)
next
  case (Some src)
  show ?thesis
  proof (cases "outs ! c")
    case None
    then show ?thesis using assms Some by (simp add: bypass_channel_def chan_ptr_def)
  next
    case (Some dst)
    obtain d where "copy_block src dst 0 n = Some d"
      using copy_block_ok [of n src dst 0] assms(4,5) \<open>ins ! c = Some src\<close> Some by auto
    then show ?thesis
      using assms \<open>ins ! c = Some src\<close> Some by (simp add: bypass_channel_def chan_ptr_def)
  qed
qed

lemma bypass_copy_ok:
  assumes "channels_ok ins n" "channels_ok outs n"
  shows "\<exists>outs'. bypass_copy ins outs n = Some outs'"
proof -
  have l: "length ins = 2" "length outs = 2"
    using assms by (simp_all add: channels_ok_def)
  obtain o1 where b1: "bypass_channel ins outs 0 n = Some o1" "length o1 = 2"
    "o1 ! 1 = outs ! 1"
    using bypass_channel_ok [OF l, of 0 n] assms
    by (auto simp add: channels_ok_def split: option.splits)
  obtain o2 where "bypass_channel ins o1 1 n = Some o2"
    using bypass_channel_ok [OF l(1) b1(2), of 1 n] assms b1(3)
    by (auto simp add: channels_ok_def split: option.splits)
  then show ?thesis by (simp add: bypass_copy_def b1)
qed

lemma channels_ok_ready:
  assumes "channels_ok cs n"
  shows "chan_ready cs 0 n" "cs ! 1 \<noteq> None \<Longrightarrow> chan_ready cs 1 n"
  using assms by (auto simp add: channels_ok_def chan_ready_def split: option.splits)

lemma channel_setup_ok:
  assumes "engine_ok p" "channels_ok ins n" "channels_ok outs n"
  shows "\<exists>p1. channel_setup p ins outs = Some p1
           \<and> p1 = p\<lparr>inputChannelIndex := (if ins ! 1 = None then 0 else inputChannelIndex p),
                    outputChannelIndex := (if outs ! 1 = None then 0 else outputChannelIndex p)\<rparr>
           \<and> chan_ready ins (inputChannelIndex p1) n
           \<and> chan_ready outs (outputChannelIndex p1) n"
proof -
  have l: "length ins = 2" "length outs = 2"
    using assms by (simp_all add: channels_ok_def)
  have i: "inputChannelIndex p = 0 \<or> inputChannelIndex p = 1"
    and o: "outputChannelIndex p = 0 \<or> outputChannelIndex p = 1"
    using assms(1) by (auto simp add: engine_ok_def)
  have c: "inputChannels p = 2" "outputChannels p = 2"
    using assms(1) by (simp_all add: engine_ok_def)
  show ?thesis
    using i o channels_ok_ready [OF assms(2)] channels_ok_ready [OF assms(3)]
    by (auto simp add: channel_setup_def chan_ptr_def l c)
qed

lemma read_position_start:
  assumes "b < DELAY_BUFFER_SIZE" "0 < n" "n \<le> DELAY_BUFFER_SIZE"
  shows "read_position ((b + n) mod DELAY_BUFFER_SIZE) n = b"
proof (cases "b + n < DELAY_BUFFER_SIZE")
  case True
  then have "(b + n) mod DELAY_BUFFER_SIZE = b + n" by simp
  moreover have "int b mod 2 ^ 32 = int b"
    using assms(1) by (simp add: DELAY_BUFFER_SIZE_def)
  ultimately show ?thesis
    by (simp add: read_position_def Let_def)
next
  case False
  then have e: "(b + n) mod DELAY_BUFFER_SIZE = b + n - DELAY_BUFFER_SIZE"
    using assms by (simp add: mod_if)
  have neg: "int (b + n - DELAY_BUFFER_SIZE) - int n < 0"
    using False assms(1) by simp
  have "int (b + n - DELAY_BUFFER_SIZE) - int n + int DELAY_BUFFER_SIZE = int b"
    using False by simp
  moreover have "int b mod 2 ^ 32 = int b"
    using assms(1) by (simp add: DELAY_BUFFER_SIZE_def)
  ultimately show ?thesis
    using neg by (simp add: read_position_def Let_def e)
qed

lemma read_position_mod:
  assumes "e < DELAY_BUFFER_SIZE" "0 < n" "n \<le> DELAY_BUFFER_SIZE"
  shows "int (read_position e n) = (int e - int n) mod int DELAY_BUFFER_SIZE"
proof (cases "int e - int n < 0")
  case True
  have "(int e - int n) mod int DELAY_BUFFER_SIZE
      = (int e - int n + int DELAY_BUFFER_SIZE) mod int DELAY_BUFFER_SIZE"
    by simp
  also have "\<dots> = int e - int n + int DELAY_BUFFER_SIZE"
    using True assms by (intro mod_pos_pos_trivial) auto
  finally have m: "(int e - int n) mod int DELAY_BUFFER_SIZE
      = int e - int n + int DELAY_BUFFER_SIZE" .
  have "(int e - int n + int DELAY_BUFFER_SIZE) mod 2 ^ 32 = int e - int n + int DELAY_BUFFER_SIZE"
    using True assms by (intro mod_pos_pos_trivial) (auto simp add: DELAY_BUFFER_SIZE_def)
  moreover have "0 \<le> int e - int n + int DELAY_BUFFER_SIZE" using assms by simp
  ultimately show ?thesis
    using True by (simp add: read_position_def Let_def m)
next
  case False
  have "(int e - int n) mod int DELAY_BUFFER_SIZE = int e - int n"
    using False assms by (intro mod_pos_pos_trivial) auto
  moreover have "(int e - int n) mod 2 ^ 32 = int e - int n"
    using False assms by (intro mod_pos_pos_trivial) (auto simp add: DELAY_BUFFER_SIZE_def)
  ultimately show ?thesis
    using False by (simp add: read_position_def Let_def)
qed




lemma mod_shift_ne:
  assumes "0 < d" "d < m"
  shows "(x + d) mod m \<noteq> x mod (m::nat)"
proof
  assume "(x + d) mod m = x mod m"
  then have "m dvd (x + d) - x" by (simp add: mod_eq_dvd_iff_nat)
  then have "m dvd d" by simp
  then show False using assms by (simp add: nat_dvd_not_less)
qed

subsection \<open>The processing call, bypass off\<close>

lemma process_run:
  assumes "engine_ok p" "\<not> bypass p" "channels_ok ins n" "channels_ok outs n"
    and "0 < n" "n \<le> DELAY_BUFFER_SIZE"
  shows "\<exists>p1 le re p3 p5 outs'.
      channel_setup p ins outs = Some p1
    \<and> p1 = p\<lparr>inputChannelIndex := (if ins ! 1 = None then 0 else inputChannelIndex p),
             outputChannelIndex := (if outs ! 1 = None then 0 else outputChannelIndex p)\<rparr>
    \<and> peak_detection ins (inputChannelIndex p1) n (peakEnvelopeLeft p1, peakEnvelopeRight p1)
        = Some (le, re)
    \<and> filter_loop (advancedMode p1) (p1\<lparr>peakEnvelopeLeft := le, peakEnvelopeRight := re\<rparr>)
          ins (inputChannelIndex p1) 0 n = Some p3
    \<and> compress_loop (p3\<lparr>writeIndex := read_position (bufferIndex p3) n\<rparr>) outs 0 n
        = Some (p5, outs')
    \<and> OTT_ProcessAudio p ins outs (int n) = Some (store_meters p5, outs')
    \<and> buffers_ok p3 \<and> config p3 = config p1
    \<and> bufferIndex p3 = (bufferIndex p + n) mod DELAY_BUFFER_SIZE
    \<and> read_position (bufferIndex p3) n = bufferIndex p
    \<and> chan_ready ins 0 n \<and> chan_ready ins (inputChannelIndex p1) n
    \<and> chan_ready outs 0 n \<and> chan_ready outs (outputChannelIndex p1) n"
proof -
  from channel_setup_ok [OF assms(1,3,4)] obtain p1 where
    cs: "channel_setup p ins outs = Some p1"
    and p1: "p1 = p\<lparr>inputChannelIndex := (if ins ! 1 = None then 0 else inputChannelIndex p),
             outputChannelIndex := (if outs ! 1 = None then 0 else outputChannelIndex p)\<rparr>"
    and ri: "chan_ready ins (inputChannelIndex p1) n"
    and ro: "chan_ready outs (outputChannelIndex p1) n"
    by blast
  have r0: "chan_ready ins 0 n" "chan_ready outs 0 n"
    using channels_ok_ready(1) assms(3,4) by simp_all
  have reads: "\<forall>k<n. rd_sample ins 0 k \<noteq> None \<and> rd_sample ins (inputChannelIndex p1) k \<noteq> None"
    using rd_sample_ok [OF r0(1)] rd_sample_ok [OF ri] by simp
  obtain le re where
    pk: "peak_detection ins (inputChannelIndex p1) n (peakEnvelopeLeft p1, peakEnvelopeRight p1)
           = Some (le, re)"
    using peak_detection_ok [OF reads] by fastforce
  define p2 where "p2 = p1\<lparr>peakEnvelopeLeft := le, peakEnvelopeRight := re\<rparr>"
  have ok2: "buffers_ok p2" and b2: "bufferIndex p2 = bufferIndex p"
    and bl: "bufferIndex p < DELAY_BUFFER_SIZE"
    using assms(1) by (simp_all add: p2_def p1 engine_ok_def buffers_ok_def)
  have a2: "advancedMode p2 = advancedMode p1" "inputChannelIndex p2 = inputChannelIndex p1"
    "outputChannelIndex p2 = outputChannelIndex p1" "bypass p1 = bypass p"
    by (simp_all add: p2_def p1)
  obtain p3 where
    fl: "filter_loop (advancedMode p1) p2 ins (inputChannelIndex p1) 0 n = Some p3"
    using filter_loop_ok [OF ok2 _ assms(6) reads, of "advancedMode p1" 0] b2 bl by auto
  from filter_loop_effect [OF fl ok2] have
    e3: "buffers_ok p3" "config p3 = config p2"
      "bufferIndex p3 = (bufferIndex p + n) mod DELAY_BUFFER_SIZE"
    using b2 bl by simp_all
  have rp: "read_position (bufferIndex p3) n = bufferIndex p"
    unfolding e3(3) using bl assms(5,6) by (rule read_position_start)
  define p4 where "p4 = p3\<lparr>writeIndex := read_position (bufferIndex p3) n\<rparr>"
  have ok4: "buffers_ok p4" "writeIndex p4 < DELAY_BUFFER_SIZE"
    "outputChannelIndex p4 = outputChannelIndex p1"
    using e3(1,2) rp bl a2 by (simp_all add: p4_def buffers_ok_def config_def p2_def)
  obtain p5 outs' where cl: "compress_loop p4 outs 0 n = Some (p5, outs')"
    using compress_loop_ok [OF ok4(1,2) r0(2), of 0] ro ok4(3) by fastforce
  have pa: "OTT_ProcessAudio p ins outs (int n) = Some (store_meters p5, outs')"
    using assms(2,5) cs pk fl cl
    by (simp add: OTT_ProcessAudio_def Let_def p2_def [symmetric] p4_def [symmetric])
  have c3: "config p3 = config p1" using e3(2) by (simp add: config_def p2_def)
  show ?thesis
    using cs p1 pk fl cl pa e3(1,3) c3 rp r0 ri ro
    unfolding p2_def p4_def by blast
qed


lemma engine_ok_config:
  "engine_ok p \<Longrightarrow> config q = config p \<Longrightarrow> buffers_ok q \<Longrightarrow>
   bufferIndex q < DELAY_BUFFER_SIZE \<Longrightarrow> engine_ok q"
  by (simp add: engine_ok_def config_def)

lemma process_ok:
  assumes "engine_ok p" "writeIndex p < DELAY_BUFFER_SIZE"
    and "channels_ok ins n" "channels_ok outs n" "0 < n" "n \<le> DELAY_BUFFER_SIZE"
  shows "\<exists>p' outs'. OTT_ProcessAudio p ins outs (int n) = Some (p', outs')
           \<and> engine_ok p' \<and> writeIndex p' < DELAY_BUFFER_SIZE"
proof (cases "bypass p")
  case True
  obtain outs' where "bypass_copy ins outs n = Some outs'"
    using bypass_copy_ok [OF assms(3,4)] by auto
  then show ?thesis
    using True assms(1,2) by (simp add: OTT_ProcessAudio_def)
next
  case False
  from process_run [OF assms(1) False assms(3-6)] obtain p1 le re p3 p5 outs' where
    p1: "p1 = p\<lparr>inputChannelIndex := (if ins ! 1 = None then 0 else inputChannelIndex p),
             outputChannelIndex := (if outs ! 1 = None then 0 else outputChannelIndex p)\<rparr>"
    and cl: "compress_loop (p3\<lparr>writeIndex := read_position (bufferIndex p3) n\<rparr>) outs 0 n
        = Some (p5, outs')"
    and pa: "OTT_ProcessAudio p ins outs (int n) = Some (store_meters p5, outs')"
    and e3: "buffers_ok p3" "config p3 = config p1"
      "bufferIndex p3 = (bufferIndex p + n) mod DELAY_BUFFER_SIZE"
      "read_position (bufferIndex p3) n = bufferIndex p"
    by blast
  have bl: "bufferIndex p < DELAY_BUFFER_SIZE" using assms(1) by (simp add: engine_ok_def)
  define p4 where "p4 = p3\<lparr>writeIndex := read_position (bufferIndex p3) n\<rparr>"
  have ok4: "buffers_ok p4" "writeIndex p4 < DELAY_BUFFER_SIZE" "config p4 = config p1"
    "bufferIndex p4 = bufferIndex p3"
    using e3 bl by (simp_all add: p4_def buffers_ok_def config_def)
  note e5 = compress_loop_effect [OF cl [folded p4_def] ok4(1,2)]
  have ok1: "engine_ok p1"
    using assms(1) by (auto simp add: p1 engine_ok_def buffers_ok_def)
  have b5: "bufferIndex p5 < DELAY_BUFFER_SIZE"
    using e5 ok4(4) e3(3) by (simp add: DELAY_BUFFER_SIZE_def)
  have w5: "writeIndex p5 < DELAY_BUFFER_SIZE"
    using e5 by (simp add: DELAY_BUFFER_SIZE_def)
  have "engine_ok p5"
    using engine_ok_config [OF ok1, of p5] e5 ok4(3) b5 by simp
  then have "engine_ok (store_meters p5)" "writeIndex (store_meters p5) < DELAY_BUFFER_SIZE"
    using w5 by (simp_all add: store_meters_def engine_ok_def buffers_ok_def)
  then show ?thesis using pa by simp
qed

lemma filter_loop_overrun:
  assumes "buffers_ok p" "i \<le> DELAY_BUFFER_SIZE" "DELAY_BUFFER_SIZE < n"
  shows "filter_loop adv p ins rc i n = None"
  using assms(1,2)
proof (induction "DELAY_BUFFER_SIZE - i" arbitrary: i p)
  case 0
  then have i: "i = DELAY_BUFFER_SIZE" by simp
  have "(if adv then advanced_step p ins rc i else simple_step p ins rc i) = None"
  proof (rule ccontr)
    assume "(if adv then advanced_step p ins rc i else simple_step p ins rc i) \<noteq> None"
    then obtain p1 where
      "(if adv then advanced_step p ins rc i else simple_step p ins rc i) = Some p1" by auto
    from filter_step_effect [OF this "0.prems"(1)] show False using i by simp
  qed
  moreover have "i < n" using i assms(3) by simp
  ultimately show ?case
    by (simp add: filter_loop.simps [of adv p ins rc i n])
next
  case (Suc d)
  then have i: "i < DELAY_BUFFER_SIZE" "i < n" using assms(3) by simp_all
  show ?case
  proof (cases "if adv then advanced_step p ins rc i else simple_step p ins rc i")
    case None
    then show ?thesis using i by (simp add: filter_loop.simps [of adv p ins rc i n])
  next
    case (Some p1)
    have ok1: "buffers_ok p1" using filter_step_effect [OF Some Suc.prems(1)] by simp
    have "filter_loop adv p1 ins rc (i + 1) n = None"
      using Suc.hyps(1) [of "i + 1" p1] Suc.hyps(2) ok1 i by simp
    then show ?thesis using i Some by (simp add: filter_loop.simps [of adv p ins rc i n])
  qed
qed

lemma channel_setup_buffers:
  "channel_setup p ins outs = Some p1 \<Longrightarrow>
   bandBuffers p1 = bandBuffers p \<and> delayBuffers p1 = delayBuffers p"
  by (auto simp add: channel_setup_def split: option.splits if_splits)

lemma process_overrun:
  assumes "buffers_ok p" "\<not> bypass p" "int DELAY_BUFFER_SIZE < sampleCount"
  shows "OTT_ProcessAudio p ins outs sampleCount = None"
proof (cases "channel_setup p ins outs")
  case None
  then show ?thesis using assms(2) by (simp add: OTT_ProcessAudio_def)
next
  case (Some p1)
  note cs = Some
  show ?thesis
  proof (cases "peak_detection ins (inputChannelIndex p1) (nat sampleCount)
                  (peakEnvelopeLeft p1, peakEnvelopeRight p1)")
    case None
    then show ?thesis using assms(2) cs by (simp add: OTT_ProcessAudio_def)
  next
    case (Some e)
    obtain le re where e: "e = (le, re)" by (cases e)
    have ok: "buffers_ok (p1\<lparr>peakEnvelopeLeft := le, peakEnvelopeRight := re\<rparr>)"
      using assms(1) channel_setup_buffers [OF cs] by (simp add: buffers_ok_def)
    have n: "DELAY_BUFFER_SIZE < nat sampleCount" using assms(3) by simp
    have "filter_loop (advancedMode p1) (p1\<lparr>peakEnvelopeLeft := le, peakEnvelopeRight := re\<rparr>)
            ins (inputChannelIndex p1) 0 (nat sampleCount) = None"
      using filter_loop_overrun [OF ok _ n] by simp
    then show ?thesis
      using assms(2,3) cs Some e by (simp add: OTT_ProcessAudio_def Let_def)
  qed
qed

lemma step_past_band_buffer:
  assumes "buffers_ok q"
  shows "(if adv then advanced_step q ins rc DELAY_BUFFER_SIZE
          else simple_step q ins rc DELAY_BUFFER_SIZE) = None"
proof (rule ccontr)
  assume "(if adv then advanced_step q ins rc DELAY_BUFFER_SIZE
           else simple_step q ins rc DELAY_BUFFER_SIZE) \<noteq> None"
  then obtain q' where
    "(if adv then advanced_step q ins rc DELAY_BUFFER_SIZE
      else simple_step q ins rc DELAY_BUFFER_SIZE) = Some q'" by auto
  from filter_step_effect [OF this assms] show False by simp
qed

lemma process_overrun_at:
  assumes "engine_ok p" "\<not> bypass p" "channels_ok ins n" "channels_ok outs n"
    and "DELAY_BUFFER_SIZE < n"
  shows "\<exists>p1 le re q bb.
      channel_setup p ins outs = Some p1
    \<and> peak_detection ins (inputChannelIndex p1) n (peakEnvelopeLeft p1, peakEnvelopeRight p1)
        = Some (le, re)
    \<and> filter_loop (advancedMode p1) (p1\<lparr>peakEnvelopeLeft := le, peakEnvelopeRight := re\<rparr>)
          ins (inputChannelIndex p1) 0 DELAY_BUFFER_SIZE = Some q
    \<and> bandBuffers q = Some bb \<and> length (bb ! 0) = DELAY_BUFFER_SIZE
    \<and> (\<forall>v. wr_buf bb 0 DELAY_BUFFER_SIZE v = None)
    \<and> (if advancedMode p1 then advanced_step q ins (inputChannelIndex p1) DELAY_BUFFER_SIZE
        else simple_step q ins (inputChannelIndex p1) DELAY_BUFFER_SIZE) = None"
proof -
  from channel_setup_ok [OF assms(1,3,4)] obtain p1 where
    cs: "channel_setup p ins outs = Some p1"
    and p1: "p1 = p\<lparr>inputChannelIndex := (if ins ! 1 = None then 0 else inputChannelIndex p),
             outputChannelIndex := (if outs ! 1 = None then 0 else outputChannelIndex p)\<rparr>"
    and ri: "chan_ready ins (inputChannelIndex p1) n"
    by blast
  have r0: "chan_ready ins 0 n" using channels_ok_ready(1) assms(3) by simp
  have reads: "\<forall>k<n. rd_sample ins 0 k \<noteq> None \<and> rd_sample ins (inputChannelIndex p1) k \<noteq> None"
    using rd_sample_ok [OF r0] rd_sample_ok [OF ri] by simp
  then have reads': "\<forall>k<DELAY_BUFFER_SIZE. rd_sample ins 0 k \<noteq> None
      \<and> rd_sample ins (inputChannelIndex p1) k \<noteq> None"
    using assms(5) by simp
  obtain le re where
    pk: "peak_detection ins (inputChannelIndex p1) n (peakEnvelopeLeft p1, peakEnvelopeRight p1)
           = Some (le, re)"
    using peak_detection_ok [OF reads] by fastforce
  define p2 where "p2 = p1\<lparr>peakEnvelopeLeft := le, peakEnvelopeRight := re\<rparr>"
  have ok2: "buffers_ok p2" and b2: "bufferIndex p2 < DELAY_BUFFER_SIZE"
    using assms(1) by (simp_all add: p2_def p1 engine_ok_def buffers_ok_def)
  obtain q where
    fl: "filter_loop (advancedMode p1) p2 ins (inputChannelIndex p1) 0 DELAY_BUFFER_SIZE = Some q"
    using filter_loop_ok [OF ok2 b2 order_refl reads', of "advancedMode p1" 0] by auto
  have okq: "buffers_ok q" using filter_loop_effect [OF fl ok2 b2] by simp
  then obtain bb where bb: "bandBuffers q = Some bb"
    and sb: "map length bb = replicate 6 DELAY_BUFFER_SIZE"
    by (auto simp add: buffers_ok_def buffers_shape_def split: option.splits)
  have l0: "length (bb ! 0) = DELAY_BUFFER_SIZE" using shape_nth [OF sb, of 0] by simp
  then have w: "\<forall>v. wr_buf bb 0 DELAY_BUFFER_SIZE v = None" by (simp add: wr_buf_def)
  show ?thesis
    using cs pk fl [unfolded p2_def] bb l0 w step_past_band_buffer [OF okq] by blast
qed

text \<open>
  C10. On an engine with its buffers allocated and both cursors inside the delay
  buffer, a call with \<open>0 < sampleCount \<le> 32768\<close> and buffers of at least that many
  samples returns (no buffer is indexed out of range) and leaves both cursors inside
  the delay buffer. With bypass off and \<open>sampleCount > 32768\<close> the call faults. When
  the caller's buffers do hold \<open>sampleCount\<close> samples, the peak detection and the first
  32768 iterations of the filtering pass succeed, and iteration 32768 faults: the pass
  indexes the band buffers, 32768 samples long, by the in-block sample index.
\<close>

theorem block_indices_in_range:
  "(engine_ok p \<and> writeIndex p < DELAY_BUFFER_SIZE
      \<and> channels_ok ins (nat sampleCount) \<and> channels_ok outs (nat sampleCount)
      \<and> 0 < sampleCount \<and> sampleCount \<le> int DELAY_BUFFER_SIZE
     \<longrightarrow> (\<exists>p' outs'. OTT_ProcessAudio p ins outs sampleCount = Some (p', outs')
            \<and> engine_ok p' \<and> writeIndex p' < DELAY_BUFFER_SIZE))
   \<and> (buffers_ok p \<and> \<not> bypass p \<and> int DELAY_BUFFER_SIZE < sampleCount
     \<longrightarrow> OTT_ProcessAudio p ins outs sampleCount = None)
   \<and> (engine_ok p \<and> \<not> bypass p
      \<and> channels_ok ins (nat sampleCount) \<and> channels_ok outs (nat sampleCount)
      \<and> int DELAY_BUFFER_SIZE < sampleCount
     \<longrightarrow> (\<exists>p1 le re q bb.
             channel_setup p ins outs = Some p1
           \<and> peak_detection ins (inputChannelIndex p1) (nat sampleCount)
               (peakEnvelopeLeft p1, peakEnvelopeRight p1) = Some (le, re)
           \<and> filter_loop (advancedMode p1)
               (p1\<lparr>peakEnvelopeLeft := le, peakEnvelopeRight := re\<rparr>)
               ins (inputChannelIndex p1) 0 DELAY_BUFFER_SIZE = Some q
           \<and> bandBuffers q = Some bb \<and> length (bb ! 0) = DELAY_BUFFER_SIZE
           \<and> (\<forall>v. wr_buf bb 0 DELAY_BUFFER_SIZE v = None)
           \<and> (if advancedMode p1
               then advanced_step q ins (inputChannelIndex p1) DELAY_BUFFER_SIZE
               else simple_step q ins (inputChannelIndex p1) DELAY_BUFFER_SIZE) = None))"
proof (intro conjI impI)
  assume h: "engine_ok p \<and> writeIndex p < DELAY_BUFFER_SIZE
      \<and> channels_ok ins (nat sampleCount) \<and> channels_ok outs (nat sampleCount)
      \<and> 0 < sampleCount \<and> sampleCount \<le> int DELAY_BUFFER_SIZE"
  then have n: "0 < nat sampleCount" "nat sampleCount \<le> DELAY_BUFFER_SIZE"
    "int (nat sampleCount) = sampleCount" by (simp_all add: nat_le_iff)
  from h have "engine_ok p" "writeIndex p < DELAY_BUFFER_SIZE"
    "channels_ok ins (nat sampleCount)" "channels_ok outs (nat sampleCount)" by simp_all
  from process_ok [OF this n(1,2)]
  show "\<exists>p' outs'. OTT_ProcessAudio p ins outs sampleCount = Some (p', outs')
            \<and> engine_ok p' \<and> writeIndex p' < DELAY_BUFFER_SIZE"
    by (simp only: n(3))
next
  assume "buffers_ok p \<and> \<not> bypass p \<and> int DELAY_BUFFER_SIZE < sampleCount"
  then show "OTT_ProcessAudio p ins outs sampleCount = None"
    using process_overrun by blast
next
  assume h: "engine_ok p \<and> \<not> bypass p
      \<and> channels_ok ins (nat sampleCount) \<and> channels_ok outs (nat sampleCount)
      \<and> int DELAY_BUFFER_SIZE < sampleCount"
  then have n: "DELAY_BUFFER_SIZE < nat sampleCount"
    by (simp add: zless_nat_eq_int_zless)
  from h have "engine_ok p" "\<not> bypass p"
    "channels_ok ins (nat sampleCount)" "channels_ok outs (nat sampleCount)" by simp_all
  from process_overrun_at [OF this n]
  show "\<exists>p1 le re q bb.
             channel_setup p ins outs = Some p1
           \<and> peak_detection ins (inputChannelIndex p1) (nat sampleCount)
               (peakEnvelopeLeft p1, peakEnvelopeRight p1) = Some (le, re)
           \<and> filter_loop (advancedMode p1)
               (p1\<lparr>peakEnvelopeLeft := le, peakEnvelopeRight := re\<rparr>)
               ins (inputChannelIndex p1) 0 DELAY_BUFFER_SIZE = Some q
           \<and> bandBuffers q = Some bb \<and> length (bb ! 0) = DELAY_BUFFER_SIZE
           \<and> (\<forall>v. wr_buf bb 0 DELAY_BUFFER_SIZE v = None)
           \<and> (if advancedMode p1
               then advanced_step q ins (inputChannelIndex p1) DELAY_BUFFER_SIZE
               else simple_step q ins (inputChannelIndex p1) DELAY_BUFFER_SIZE) = None" .
qed


lemma buffers_ok_delay:
  "buffers_ok p \<Longrightarrow> \<exists>db. delayBuffers p = Some db \<and> map length db = replicate 8 DELAY_BUFFER_SIZE"
  by (auto simp add: buffers_ok_def buffers_shape_def split: option.splits)

text \<open>
  C5. In a call with bypass off on a block of \<open>n \<le> 32768\<close> samples, the read cursor of
  the compression pass starts at \<open>(cursor_at_block_end - n) mod 32768\<close>; before its
  iteration \<open>k\<close> it equals the write cursor the filtering pass had before its
  iteration \<open>k\<close>, and each of the eight delay-buffer samples read there equals the
  sample as filtering iteration \<open>k\<close> left it: the band-buffer sample of in-block index
  \<open>k\<close> for the six bands, the raw input samples for the other two. Compression
  iteration \<open>k\<close> consumes the six band samples it reads there: the compressors after
  the iteration and the output samples of index \<open>k\<close>, as the iteration writes them and
  as the call returns them, are what \<open>compressed_sample\<close> makes of the band samples of
  in-block index \<open>k\<close>.
\<close>

theorem delay_read_follows_write:
  "engine_ok p \<and> \<not> bypass p \<and> channels_ok ins n \<and> channels_ok outs n
     \<and> 0 < n \<and> n \<le> DELAY_BUFFER_SIZE \<and> k < n \<and> j < 8 \<longrightarrow>
   (\<exists>p1 le re p3 p5 outs' qf qf' qc oc dbw dbr bbw qc' oc' fl fr.
       channel_setup p ins outs = Some p1
     \<and> peak_detection ins (inputChannelIndex p1) n (peakEnvelopeLeft p1, peakEnvelopeRight p1)
         = Some (le, re)
     \<and> filter_loop (advancedMode p1) (p1\<lparr>peakEnvelopeLeft := le, peakEnvelopeRight := re\<rparr>)
           ins (inputChannelIndex p1) 0 n = Some p3
     \<and> compress_loop (p3\<lparr>writeIndex := read_position (bufferIndex p3) n\<rparr>) outs 0 n
         = Some (p5, outs')
     \<and> OTT_ProcessAudio p ins outs (int n) = Some (store_meters p5, outs')
     \<and> int (read_position (bufferIndex p3) n)
         = (int (bufferIndex p3) - int n) mod int DELAY_BUFFER_SIZE
     \<and> filter_loop (advancedMode p1) (p1\<lparr>peakEnvelopeLeft := le, peakEnvelopeRight := re\<rparr>)
           ins (inputChannelIndex p1) 0 k = Some qf
     \<and> filter_loop (advancedMode p1) (p1\<lparr>peakEnvelopeLeft := le, peakEnvelopeRight := re\<rparr>)
           ins (inputChannelIndex p1) 0 (Suc k) = Some qf'
     \<and> compress_loop (p3\<lparr>writeIndex := read_position (bufferIndex p3) n\<rparr>) outs 0 k
         = Some (qc, oc)
     \<and> writeIndex qc = bufferIndex qf
     \<and> delayBuffers qf' = Some dbw \<and> delayBuffers qc = Some dbr
     \<and> rd_buf dbr j (writeIndex qc) = rd_buf dbw j (bufferIndex qf)
     \<and> rd_buf dbw j (bufferIndex qf) \<noteq> None
     \<and> bandBuffers qf' = Some bbw
     \<and> rd_buf dbw j (bufferIndex qf) =
         (if j < 6 then rd_buf bbw j k
          else if j = 6 then rd_sample ins 0 k
          else rd_sample ins (inputChannelIndex p1) k)
     \<and> compress_step qc oc k = Some (qc', oc')
     \<and> compress_loop (p3\<lparr>writeIndex := read_position (bufferIndex p3) n\<rparr>) outs 0 (Suc k)
         = Some (qc', oc')
     \<and> compressed_sample qc (\<lambda>b. bbw ! b ! k)
         = (fl, fr, compressorLow qc', compressorMid qc', compressorHigh qc')
     \<and> rd_sample oc' (outputChannelIndex qc) k = Some fr
     \<and> rd_sample oc' 0 k = Some (if outputChannelIndex qc = 0 then fr else fl)
     \<and> rd_sample outs' (outputChannelIndex qc) k = Some fr
     \<and> rd_sample outs' 0 k = Some (if outputChannelIndex qc = 0 then fr else fl))"
proof
  assume h: "engine_ok p \<and> \<not> bypass p \<and> channels_ok ins n \<and> channels_ok outs n
     \<and> 0 < n \<and> n \<le> DELAY_BUFFER_SIZE \<and> k < n \<and> j < 8"
  then have eo: "engine_ok p" and nb: "\<not> bypass p" and ci: "channels_ok ins n"
    and co: "channels_ok outs n" and n: "0 < n" "n \<le> DELAY_BUFFER_SIZE"
    and k: "k < n" and j: "j < 8" by simp_all
  from process_run [OF eo nb ci co n] obtain p1 le re p3 p5 outs' where
    cs: "channel_setup p ins outs = Some p1"
    and p1: "p1 = p\<lparr>inputChannelIndex := (if ins ! 1 = None then 0 else inputChannelIndex p),
             outputChannelIndex := (if outs ! 1 = None then 0 else outputChannelIndex p)\<rparr>"
    and pk: "peak_detection ins (inputChannelIndex p1) n
               (peakEnvelopeLeft p1, peakEnvelopeRight p1) = Some (le, re)"
    and fl: "filter_loop (advancedMode p1) (p1\<lparr>peakEnvelopeLeft := le, peakEnvelopeRight := re\<rparr>)
               ins (inputChannelIndex p1) 0 n = Some p3"
    and cl: "compress_loop (p3\<lparr>writeIndex := read_position (bufferIndex p3) n\<rparr>) outs 0 n
               = Some (p5, outs')"
    and pa: "OTT_ProcessAudio p ins outs (int n) = Some (store_meters p5, outs')"
    and e3: "buffers_ok p3" "config p3 = config p1"
      "bufferIndex p3 = (bufferIndex p + n) mod DELAY_BUFFER_SIZE"
      "read_position (bufferIndex p3) n = bufferIndex p"
    and rd: "chan_ready ins 0 n" "chan_ready ins (inputChannelIndex p1) n"
      "chan_ready outs 0 n" "chan_ready outs (outputChannelIndex p1) n"
    by blast
  define adv where "adv = advancedMode p1"
  define rc where "rc = inputChannelIndex p1"
  define p2 where "p2 = p1\<lparr>peakEnvelopeLeft := le, peakEnvelopeRight := re\<rparr>"
  define p4 where "p4 = p3\<lparr>writeIndex := read_position (bufferIndex p3) n\<rparr>"
  define b where "b = bufferIndex p"
  note fl' = fl [folded adv_def rc_def p2_def]
  note cl' = cl [folded p4_def]
  have bl: "b < DELAY_BUFFER_SIZE" using eo by (simp add: engine_ok_def b_def)
  have ok2: "buffers_ok p2" and b2: "bufferIndex p2 = b"
    using eo by (simp_all add: p2_def p1 engine_ok_def buffers_ok_def b_def)
  have reads: "\<forall>i<m. rd_sample ins 0 i \<noteq> None \<and> rd_sample ins rc i \<noteq> None" if "m \<le> n" for m
    using rd_sample_ok [OF rd(1)] rd_sample_ok [OF rd(2)] that by (simp add: rc_def)
  have b3: "bufferIndex p3 < DELAY_BUFFER_SIZE"
    using e3(3) by (simp add: DELAY_BUFFER_SIZE_def)
  have rm: "int (read_position (bufferIndex p3) n)
      = (int (bufferIndex p3) - int n) mod int DELAY_BUFFER_SIZE"
    using read_position_mod [OF b3 n] .
  \<comment> \<open>the filtering pass before and after iteration \<open>k\<close>\<close>
  obtain qf where qf: "filter_loop adv p2 ins rc 0 k = Some qf"
    using filter_loop_ok [OF ok2 _ _ reads, of k adv 0] b2 bl k n by auto
  have eqf: "bufferIndex qf = (b + k) mod DELAY_BUFFER_SIZE"
    using filter_loop_effect [OF qf ok2] b2 bl by simp
  obtain qf' where qf': "filter_loop adv p2 ins rc 0 (Suc k) = Some qf'"
    using filter_loop_ok [OF ok2 _ _ reads, of "Suc k" adv 0] b2 bl k n by auto
  have eqf': "buffers_ok qf'" "bufferIndex qf' = (b + Suc k) mod DELAY_BUFFER_SIZE"
    using filter_loop_effect [OF qf' ok2] b2 bl by simp_all
  have bqf': "bufferIndex qf' < DELAY_BUFFER_SIZE"
    using eqf'(2) by (simp add: DELAY_BUFFER_SIZE_def)
  have tail: "filter_loop adv qf' ins rc (Suc k) n = Some p3"
    using filter_loop_split [of 0 "Suc k" n adv p2 ins rc] k fl' qf' by simp
  from filter_loop_effect [OF tail eqf'(1) bqf'] obtain dbw db3 where
    dw: "delayBuffers qf' = Some dbw" and d3: "delayBuffers p3 = Some db3"
    and fr: "\<forall>pos. (\<forall>t<n - Suc k. (bufferIndex qf' + t) mod DELAY_BUFFER_SIZE \<noteq> pos)
                \<longrightarrow> (\<forall>j. db3 ! j ! pos = dbw ! j ! pos)"
    by blast
  have away: "(bufferIndex qf' + t) mod DELAY_BUFFER_SIZE \<noteq> bufferIndex qf"
    if "t < n - Suc k" for t
  proof -
    have "(bufferIndex qf' + t) mod DELAY_BUFFER_SIZE
        = (b + Suc k + t) mod DELAY_BUFFER_SIZE"
      unfolding eqf'(2) by (rule mod_add_left_eq)
    also have "b + Suc k + t = (b + k) + Suc t" by simp
    finally show ?thesis
      unfolding eqf using mod_shift_ne [of "Suc t" DELAY_BUFFER_SIZE "b + k"] that n k by simp
  qed
  then have same: "db3 ! j ! bufferIndex qf = dbw ! j ! bufferIndex qf"
    using fr by simp
  \<comment> \<open>the compression pass before iteration \<open>k\<close>\<close>
  have ok4: "buffers_ok p4" and w4: "writeIndex p4 = b"
    and o4: "outputChannelIndex p4 = outputChannelIndex p1"
    and d4: "delayBuffers p4 = Some db3"
    using e3 d3 by (simp_all add: p4_def buffers_ok_def b_def config_def)
  have rk: "chan_ready outs 0 k" "chan_ready outs (outputChannelIndex p4) k"
    using chan_ready_mono [OF rd(3), of k] chan_ready_mono [OF rd(4), of k] k o4 by simp_all
  have "writeIndex p4 < DELAY_BUFFER_SIZE" using w4 bl by simp
  from compress_loop_ok [OF ok4 this rk, of 0]
  obtain qc oc where qc: "compress_loop p4 outs 0 k = Some (qc, oc)"
    by fastforce
  have eqc: "writeIndex qc = (b + k) mod DELAY_BUFFER_SIZE" "delayBuffers qc = Some db3"
    using compress_loop_effect [OF qc ok4] w4 bl d4 by simp_all
  \<comment> \<open>the samples at the shared position\<close>
  have s3: "map length db3 = replicate 8 DELAY_BUFFER_SIZE"
    using buffers_ok_delay [OF e3(1)] d3 by simp
  have sw: "map length dbw = replicate 8 DELAY_BUFFER_SIZE"
    using buffers_ok_delay [OF eqf'(1)] dw by simp
  have pos: "bufferIndex qf < DELAY_BUFFER_SIZE"
    using eqf by (simp add: DELAY_BUFFER_SIZE_def)
  have r3: "rd_buf db3 j (bufferIndex qf) = Some (db3 ! j ! bufferIndex qf)"
    using rd_buf_ok [OF s3 j pos] .
  have rw: "rd_buf dbw j (bufferIndex qf) = Some (dbw ! j ! bufferIndex qf)"
    using rd_buf_ok [OF sw j pos] .
  have wq: "writeIndex qc = bufferIndex qf" using eqc(1) eqf by simp
  \<comment> \<open>what iteration \<open>k\<close> stored there\<close>
  have "filter_loop adv qf ins rc k (Suc k) = Some qf'"
    using filter_loop_split [of 0 k "Suc k" adv p2 ins rc] qf qf' by simp
  from filter_step_written [OF filter_loop_single [OF this]] obtain dbw' bbw where
    wr: "delayBuffers qf' = Some dbw'" "bandBuffers qf' = Some bbw"
      "\<forall>j<6. dbw' ! j ! bufferIndex qf = bbw ! j ! k"
      "rd_sample ins 0 k = Some (dbw' ! 6 ! bufferIndex qf)"
      "rd_sample ins rc k = Some (dbw' ! 7 ! bufferIndex qf)"
    by blast
  have dbw': "dbw' = dbw" using wr(1) dw by simp
  have sb: "map length bbw = replicate 6 DELAY_BUFFER_SIZE"
    using eqf'(1) wr(2) by (simp add: buffers_ok_def buffers_shape_def)
  have kl: "k < DELAY_BUFFER_SIZE" using k n by simp
  have j67: "j < 6 \<or> j = 6 \<or> j = 7" using j by arith
  have written: "rd_buf dbw j (bufferIndex qf) =
         (if j < 6 then rd_buf bbw j k
          else if j = 6 then rd_sample ins 0 k
          else rd_sample ins (inputChannelIndex p1) k)"
    using j67 rw wr(3,4,5) rd_buf_ok [OF sb _ kl, of j]
    by (auto simp add: dbw' rc_def)
  have final: "rd_buf db3 j (writeIndex qc) = rd_buf dbw j (bufferIndex qf)"
    "rd_buf dbw j (bufferIndex qf) \<noteq> None"
    using r3 rw same wq by simp_all
  \<comment> \<open>compression iteration \<open>k\<close>\<close>
  have wlt: "writeIndex p4 < DELAY_BUFFER_SIZE" using w4 bl by simp
  note eq = compress_loop_effect [OF qc ok4 wlt]
  have okq: "buffers_ok qc" and oq: "outputChannelIndex qc = outputChannelIndex p1"
    using eq o4 by (simp_all add: config_def)
  have wql: "writeIndex qc < DELAY_BUFFER_SIZE" using wq pos by simp
  have rq: "chan_ready oc 0 n" "chan_ready oc (outputChannelIndex qc) n"
    using eq rd(3,4) oq by simp_all
  obtain qc' oc' where st: "compress_step qc oc k = Some (qc', oc')"
    using compress_step_ok [OF okq wql rq k] by fastforce
  obtain fl fr cl cm ch where
    cv: "compressed_sample qc (\<lambda>b. db3 ! b ! writeIndex qc) = (fl, fr, cl, cm, ch)"
    by (metis prod_cases5)
  note val = compress_step_value [OF st eqc(2) cv]
  have same_all: "db3 ! b ! bufferIndex qf = dbw ! b ! bufferIndex qf" for b
    using fr away by simp
  have "compressed_sample qc (\<lambda>b. bbw ! b ! k)
      = compressed_sample qc (\<lambda>b. db3 ! b ! writeIndex qc)"
    by (rule compressed_sample_cong) (simp add: wq same_all wr(3) [unfolded dbw'])
  then have cb: "compressed_sample qc (\<lambda>b. bbw ! b ! k)
      = (fl, fr, compressorLow qc', compressorMid qc', compressorHigh qc')"
    using cv val by simp
  have suc: "compress_loop p4 outs 0 (Suc k) = Some (qc', oc')"
    using compress_loop_split [of 0 k "Suc k" p4 outs] qc st
    by (simp add: compress_loop_single)
  have tl: "compress_loop qc' oc' (Suc k) n = Some (p5, outs')"
    using compress_loop_split [of 0 "Suc k" n p4 outs] k cl' suc by simp
  have kept: "rd_sample outs' c k = rd_sample oc' c k" for c
    using compress_loop_frame [OF tl] by simp
  have outv: "rd_sample oc' (outputChannelIndex qc) k = Some fr"
    "rd_sample oc' 0 k = Some (if outputChannelIndex qc = 0 then fr else fl)"
    "rd_sample outs' (outputChannelIndex qc) k = Some fr"
    "rd_sample outs' 0 k = Some (if outputChannelIndex qc = 0 then fr else fl)"
    using val kept by simp_all
  show "\<exists>p1 le re p3 p5 outs' qf qf' qc oc dbw dbr bbw qc' oc' fl fr.
       channel_setup p ins outs = Some p1
     \<and> peak_detection ins (inputChannelIndex p1) n (peakEnvelopeLeft p1, peakEnvelopeRight p1)
         = Some (le, re)
     \<and> filter_loop (advancedMode p1) (p1\<lparr>peakEnvelopeLeft := le, peakEnvelopeRight := re\<rparr>)
           ins (inputChannelIndex p1) 0 n = Some p3
     \<and> compress_loop (p3\<lparr>writeIndex := read_position (bufferIndex p3) n\<rparr>) outs 0 n
         = Some (p5, outs')
     \<and> OTT_ProcessAudio p ins outs (int n) = Some (store_meters p5, outs')
     \<and> int (read_position (bufferIndex p3) n)
         = (int (bufferIndex p3) - int n) mod int DELAY_BUFFER_SIZE
     \<and> filter_loop (advancedMode p1) (p1\<lparr>peakEnvelopeLeft := le, peakEnvelopeRight := re\<rparr>)
           ins (inputChannelIndex p1) 0 k = Some qf
     \<and> filter_loop (advancedMode p1) (p1\<lparr>peakEnvelopeLeft := le, peakEnvelopeRight := re\<rparr>)
           ins (inputChannelIndex p1) 0 (Suc k) = Some qf'
     \<and> compress_loop (p3\<lparr>writeIndex := read_position (bufferIndex p3) n\<rparr>) outs 0 k
         = Some (qc, oc)
     \<and> writeIndex qc = bufferIndex qf
     \<and> delayBuffers qf' = Some dbw \<and> delayBuffers qc = Some dbr
     \<and> rd_buf dbr j (writeIndex qc) = rd_buf dbw j (bufferIndex qf)
     \<and> rd_buf dbw j (bufferIndex qf) \<noteq> None
     \<and> bandBuffers qf' = Some bbw
     \<and> rd_buf dbw j (bufferIndex qf) =
         (if j < 6 then rd_buf bbw j k
          else if j = 6 then rd_sample ins 0 k
          else rd_sample ins (inputChannelIndex p1) k)
     \<and> compress_step qc oc k = Some (qc', oc')
     \<and> compress_loop (p3\<lparr>writeIndex := read_position (bufferIndex p3) n\<rparr>) outs 0 (Suc k)
         = Some (qc', oc')
     \<and> compressed_sample qc (\<lambda>b. bbw ! b ! k)
         = (fl, fr, compressorLow qc', compressorMid qc', compressorHigh qc')
     \<and> rd_sample oc' (outputChannelIndex qc) k = Some fr
     \<and> rd_sample oc' 0 k = Some (if outputChannelIndex qc = 0 then fr else fl)
     \<and> rd_sample outs' (outputChannelIndex qc) k = Some fr
     \<and> rd_sample outs' 0 k = Some (if outputChannelIndex qc = 0 then fr else fl)"
    using cs pk fl cl pa rm qf [unfolded adv_def rc_def p2_def]
      qf' [unfolded adv_def rc_def p2_def] qc [unfolded p4_def] wq dw eqc(2) final wr(2)
      written st suc [unfolded p4_def] cb outv
    by blast
qed


subsection \<open>The second channel\<close>

lemma right_output_untouched:
  assumes "engine_ok p" "\<not> bypass p" "channels_ok ins n" "channels_ok outs n"
    and "0 < n" "n \<le> DELAY_BUFFER_SIZE" "outputChannelIndex p = 0"
  shows "\<exists>p' outs'. OTT_ProcessAudio p ins outs (int n) = Some (p', outs')
           \<and> outs' ! 1 = outs ! 1"
proof -
  from process_run [OF assms(1-6)] obtain p1 p3 p5 outs' where
    p1: "p1 = p\<lparr>inputChannelIndex := (if ins ! 1 = None then 0 else inputChannelIndex p),
             outputChannelIndex := (if outs ! 1 = None then 0 else outputChannelIndex p)\<rparr>"
    and cl: "compress_loop (p3\<lparr>writeIndex := read_position (bufferIndex p3) n\<rparr>) outs 0 n
        = Some (p5, outs')"
    and pa: "OTT_ProcessAudio p ins outs (int n) = Some (store_meters p5, outs')"
    and e3: "buffers_ok p3" "config p3 = config p1"
      "read_position (bufferIndex p3) n = bufferIndex p"
    by blast
  have bl: "bufferIndex p < DELAY_BUFFER_SIZE" using assms(1) by (simp add: engine_ok_def)
  define p4 where "p4 = p3\<lparr>writeIndex := read_position (bufferIndex p3) n\<rparr>"
  have ok4: "buffers_ok p4" "writeIndex p4 < DELAY_BUFFER_SIZE" "outputChannelIndex p4 = 0"
    using e3 bl assms(7) by (simp_all add: p4_def buffers_ok_def config_def p1)
  have "outs' ! 1 = outs ! 1"
    using compress_loop_effect [OF cl [folded p4_def] ok4(1,2)] ok4(3) by simp
  then show ?thesis using pa by simp
qed

text \<open>
  With the second channel index at 0, the filtering pass reads channel 0 only: two
  input arrays that agree on channel 0 give the same result.
\<close>

lemma peak_sample_cong:
  assumes "\<And>i. rd_sample ins 0 i = rd_sample ins' 0 i"
  shows "peak_sample ins 0 i env = peak_sample ins' 0 i env"
  by (simp add: peak_sample_def assms cong: option.case_cong)

lemma peak_single_cong:
  assumes "\<And>i. rd_sample ins 0 i = rd_sample ins' 0 i"
  shows "peak_single ins 0 n i env = peak_single ins' 0 n i env"
proof (induction "n - i" arbitrary: i env rule: less_induct)
  case less
  show ?case
  proof (cases "peak_sample ins 0 i env")
    case None
    then show ?thesis
      using peak_sample_cong [OF assms, of i env]
      by (simp add: peak_single.simps [of ins 0 n i env] peak_single.simps [of ins' 0 n i env])
  next
    case (Some e)
    then have s': "peak_sample ins' 0 i env = Some e"
      using peak_sample_cong [OF assms, of i env] by simp
    show ?thesis
    proof (cases "i + 1 < n")
      case True
      then have "peak_single ins 0 n (i + 1) e = peak_single ins' 0 n (i + 1) e"
        using less [of "i + 1" e] by simp
      then show ?thesis
        using True Some s'
        by (simp add: peak_single.simps [of ins 0 n i env] peak_single.simps [of ins' 0 n i env])
    next
      case False
      then show ?thesis
        using Some s'
        by (simp add: peak_single.simps [of ins 0 n i env] peak_single.simps [of ins' 0 n i env])
    qed
  qed
qed

lemma peak_four_cong:
  assumes "\<And>i. rd_sample ins 0 i = rd_sample ins' 0 i"
  shows "peak_four ins 0 i env = peak_four ins' 0 i env"
  by (simp add: peak_four_def peak_sample_cong [OF assms] cong: option.case_cong)

lemma peak_quad_cong:
  assumes "\<And>i. rd_sample ins 0 i = rd_sample ins' 0 i"
  shows "peak_quad ins 0 n i env = peak_quad ins' 0 n i env"
proof (induction "n - i" arbitrary: i env rule: less_induct)
  case less
  show ?case
  proof (cases "peak_four ins 0 i env")
    case None
    then show ?thesis
      using peak_four_cong [OF assms, of i env]
      by (simp add: peak_quad.simps [of ins 0 n i env] peak_quad.simps [of ins' 0 n i env])
  next
    case (Some e)
    then have s': "peak_four ins' 0 i env = Some e"
      using peak_four_cong [OF assms, of i env] by simp
    show ?thesis
    proof (cases "int (i + 4) < int n - 3")
      case True
      then have "peak_quad ins 0 n (i + 4) e = peak_quad ins' 0 n (i + 4) e"
        using less [of "i + 4" e] by simp
      then show ?thesis
        using True Some s'
        by (simp add: peak_quad.simps [of ins 0 n i env] peak_quad.simps [of ins' 0 n i env])
    next
      case False
      then show ?thesis
        using Some s'
        by (simp add: peak_quad.simps [of ins 0 n i env] peak_quad.simps [of ins' 0 n i env])
    qed
  qed
qed

lemma peak_rest_cong:
  assumes "\<And>i. rd_sample ins 0 i = rd_sample ins' 0 i"
  shows "peak_rest ins 0 n i env = peak_rest ins' 0 n i env"
proof (induction "n - i" arbitrary: i env rule: less_induct)
  case less
  show ?case
  proof (cases "i < n")
    case False
    then show ?thesis
      by (simp add: peak_rest.simps [of ins 0 n i env] peak_rest.simps [of ins' 0 n i env])
  next
    case True
    show ?thesis
    proof (cases "peak_sample ins 0 i env")
      case None
      then show ?thesis
        using True peak_sample_cong [OF assms, of i env]
        by (simp add: peak_rest.simps [of ins 0 n i env] peak_rest.simps [of ins' 0 n i env])
    next
      case (Some e)
      then have s': "peak_sample ins' 0 i env = Some e"
        using peak_sample_cong [OF assms, of i env] by simp
      have "peak_rest ins 0 n (i + 1) e = peak_rest ins' 0 n (i + 1) e"
        using less [of "i + 1" e] True by simp
      then show ?thesis
        using True Some s'
        by (simp add: peak_rest.simps [of ins 0 n i env] peak_rest.simps [of ins' 0 n i env])
    qed
  qed
qed

lemma peak_detection_cong:
  assumes "\<And>i. rd_sample ins 0 i = rd_sample ins' 0 i"
  shows "peak_detection ins 0 n env = peak_detection ins' 0 n env"
proof -
  have r: "peak_rest ins 0 n = peak_rest ins' 0 n"
    by (intro ext) (rule peak_rest_cong [OF assms])
  show ?thesis
    by (simp add: peak_detection_def peak_single_cong [OF assms] peak_quad_cong [OF assms] r
        cong: option.case_cong prod.case_cong)
qed

lemma filter_loop_cong:
  assumes "\<And>i. rd_sample ins 0 i = rd_sample ins' 0 i"
  shows "filter_loop adv p ins 0 i n = filter_loop adv p ins' 0 i n"
proof (induction "n - i" arbitrary: i p rule: less_induct)
  case less
  have st: "(if adv then advanced_step p ins 0 i else simple_step p ins 0 i)
          = (if adv then advanced_step p ins' 0 i else simple_step p ins' 0 i)"
    by (simp add: advanced_step_def simple_step_def assms)
  show ?case
  proof (cases "i < n")
    case False
    then show ?thesis
      by (simp add: filter_loop.simps [of adv p ins 0 i n] filter_loop.simps [of adv p ins' 0 i n])
  next
    case True
    show ?thesis
    proof (cases "if adv then advanced_step p ins 0 i else simple_step p ins 0 i")
      case None
      then show ?thesis
        using True st
        by (simp add: filter_loop.simps [of adv p ins 0 i n]
            filter_loop.simps [of adv p ins' 0 i n])
    next
      case (Some p1)
      have "filter_loop adv p1 ins 0 (i + 1) n = filter_loop adv p1 ins' 0 (i + 1) n"
        using less [of "i + 1" p1] True by simp
      then show ?thesis
        using True Some st
        by (simp add: filter_loop.simps [of adv p ins 0 i n]
            filter_loop.simps [of adv p ins' 0 i n])
    qed
  qed
qed

lemma second_input_unused:
  assumes "\<not> bypass p" "inputChannelIndex p = 0"
    and "length ins = 2" "length ins' = 2" "ins ! 0 = ins' ! 0"
    and "ins ! 1 \<noteq> None" "ins' ! 1 \<noteq> None"
  shows "OTT_ProcessAudio p ins outs sampleCount = OTT_ProcessAudio p ins' outs sampleCount"
proof -
  have rd: "\<And>i. rd_sample ins 0 i = rd_sample ins' 0 i"
    using assms(3,4,5) by (simp add: rd_sample_def chan_ptr_def)
  obtain x x' where x: "ins ! 1 = Some x" "ins' ! 1 = Some x'"
    using assms(6,7) by auto
  have cs: "channel_setup p ins outs = channel_setup p ins' outs"
    using assms(3,4) x by (simp add: channel_setup_def chan_ptr_def)
  have ci: "inputChannelIndex p1 = 0" if "channel_setup p ins' outs = Some p1" for p1
    using that assms(2)
    by (auto simp add: channel_setup_def split: option.splits if_splits)
  show ?thesis
  proof (cases "channel_setup p ins' outs")
    case None
    then show ?thesis using assms(1) cs by (simp add: OTT_ProcessAudio_def)
  next
    case (Some p1)
    then show ?thesis
      using assms(1) cs ci [OF Some]
      by (simp add: OTT_ProcessAudio_def Let_def peak_detection_cong [OF rd]
          filter_loop_cong [OF rd] cong: option.case_cong prod.case_cong if_cong)
  qed
qed



subsection \<open>A freshly initialised engine\<close>

lemma Initialize_engine:
  "engine_ok (OTT_Initialize sr)" "writeIndex (OTT_Initialize sr) = 0"
  "\<not> bypass (OTT_Initialize sr)"
proof -
  show "engine_ok (OTT_Initialize sr)"
    by (simp add: engine_ok_def Initialize_facts DELAY_BUFFER_SIZE_def)
  show "writeIndex (OTT_Initialize sr) = 0"
    by (simp add: OTT_Initialize_def Let_def)
  show "\<not> bypass (OTT_Initialize sr)"
    by (simp add: Initialize_facts)
qed


text \<open>
  The witness of C10: a block of two samples on a freshly initialised engine, and a
  block of 32769 samples in buffers of 32769 samples, which faults at the band buffers.
\<close>

theorem block_indices_in_range_witness:
  "engine_ok (OTT_Initialize 44100) \<and> writeIndex (OTT_Initialize 44100) < DELAY_BUFFER_SIZE
   \<and> channels_ok [Some [1, 1], Some [2, 2]] (nat 2)
   \<and> channels_ok [Some [0, 0], Some [0, 0]] (nat 2)
   \<and> (0::int) < 2 \<and> (2::int) \<le> int DELAY_BUFFER_SIZE
   \<and> (\<exists>p' outs'. OTT_ProcessAudio (OTT_Initialize 44100) [Some [1, 1], Some [2, 2]]
                      [Some [0, 0], Some [0, 0]] 2 = Some (p', outs')
          \<and> engine_ok p' \<and> writeIndex p' < DELAY_BUFFER_SIZE)
   \<and> buffers_ok (OTT_Initialize 44100) \<and> \<not> bypass (OTT_Initialize 44100)
   \<and> channels_ok [Some (replicate 32769 1), Some (replicate 32769 2)] (nat 32769)
   \<and> channels_ok [Some (replicate 32769 0), Some (replicate 32769 0)] (nat 32769)
   \<and> int DELAY_BUFFER_SIZE < 32769
   \<and> OTT_ProcessAudio (OTT_Initialize 44100)
        [Some (replicate 32769 1), Some (replicate 32769 2)]
        [Some (replicate 32769 0), Some (replicate 32769 0)] 32769 = None
   \<and> (\<exists>p1 le re q bb.
         channel_setup (OTT_Initialize 44100)
           [Some (replicate 32769 1), Some (replicate 32769 2)]
           [Some (replicate 32769 0), Some (replicate 32769 0)] = Some p1
       \<and> peak_detection [Some (replicate 32769 1), Some (replicate 32769 2)]
           (inputChannelIndex p1) (nat 32769)
           (peakEnvelopeLeft p1, peakEnvelopeRight p1) = Some (le, re)
       \<and> filter_loop (advancedMode p1)
           (p1\<lparr>peakEnvelopeLeft := le, peakEnvelopeRight := re\<rparr>)
           [Some (replicate 32769 1), Some (replicate 32769 2)]
           (inputChannelIndex p1) 0 DELAY_BUFFER_SIZE = Some q
       \<and> bandBuffers q = Some bb \<and> length (bb ! 0) = DELAY_BUFFER_SIZE
       \<and> (\<forall>v. wr_buf bb 0 DELAY_BUFFER_SIZE v = None)
       \<and> (if advancedMode p1
           then advanced_step q [Some (replicate 32769 1), Some (replicate 32769 2)]
                  (inputChannelIndex p1) DELAY_BUFFER_SIZE
           else simple_step q [Some (replicate 32769 1), Some (replicate 32769 2)]
                  (inputChannelIndex p1) DELAY_BUFFER_SIZE) = None)"
proof -
  have e: "engine_ok (OTT_Initialize 44100)" "writeIndex (OTT_Initialize 44100) < DELAY_BUFFER_SIZE"
    "buffers_ok (OTT_Initialize 44100)" "\<not> bypass (OTT_Initialize 44100)"
    using Initialize_engine Initialize_facts by (simp_all add: engine_ok_def)
  have c: "channels_ok [Some [1, 1], Some [2, 2]] (nat 2)"
    "channels_ok [Some [0, 0], Some [0, 0]] (nat 2)"
    "channels_ok [Some (replicate 32769 1), Some (replicate 32769 2)] (nat 32769)"
    "channels_ok [Some (replicate 32769 0), Some (replicate 32769 0)] (nat 32769)"
    by (simp_all add: channels_ok_def)
  have n: "(0::int) < 2" "(2::int) \<le> int DELAY_BUFFER_SIZE" "int DELAY_BUFFER_SIZE < 32769"
    by (simp_all add: DELAY_BUFFER_SIZE_def)
  show ?thesis
    using block_indices_in_range [of "OTT_Initialize 44100" "[Some [1, 1], Some [2, 2]]" 2
            "[Some [0, 0], Some [0, 0]]"]
          block_indices_in_range [of "OTT_Initialize 44100"
            "[Some (replicate 32769 1), Some (replicate 32769 2)]" 32769
            "[Some (replicate 32769 0), Some (replicate 32769 0)]"]
          e c n
    by blast
qed


text \<open>
  The witness of C5: the second sample (\<open>k = 1\<close>) of a block of two on a freshly
  initialised engine, first band.
\<close>

theorem delay_read_follows_write_witness:
  "engine_ok (OTT_Initialize 44100) \<and> \<not> bypass (OTT_Initialize 44100)
   \<and> channels_ok [Some [1, 1], Some [2, 2]] 2 \<and> channels_ok [Some [0, 0], Some [0, 0]] 2
   \<and> (0::nat) < 2 \<and> 2 \<le> DELAY_BUFFER_SIZE \<and> (1::nat) < 2 \<and> (0::nat) < 8
   \<and> (\<exists>p1 le re p3 p5 outs' qf qf' qc oc dbw dbr bbw qc' oc' fl fr.
         filter_loop (advancedMode p1) (p1\<lparr>peakEnvelopeLeft := le, peakEnvelopeRight := re\<rparr>)
           [Some [1, 1], Some [2, 2]] (inputChannelIndex p1) 0 2 = Some p3
       \<and> OTT_ProcessAudio (OTT_Initialize 44100) [Some [1, 1], Some [2, 2]]
           [Some [0, 0], Some [0, 0]] (int 2) = Some (store_meters p5, outs')
       \<and> filter_loop (advancedMode p1) (p1\<lparr>peakEnvelopeLeft := le, peakEnvelopeRight := re\<rparr>)
           [Some [1, 1], Some [2, 2]] (inputChannelIndex p1) 0 1 = Some qf
       \<and> filter_loop (advancedMode p1) (p1\<lparr>peakEnvelopeLeft := le, peakEnvelopeRight := re\<rparr>)
           [Some [1, 1], Some [2, 2]] (inputChannelIndex p1) 0 (Suc 1) = Some qf'
       \<and> compress_loop (p3\<lparr>writeIndex := read_position (bufferIndex p3) 2\<rparr>)
           [Some [0, 0], Some [0, 0]] 0 1 = Some (qc, oc)
       \<and> writeIndex qc = bufferIndex qf
       \<and> delayBuffers qf' = Some dbw \<and> delayBuffers qc = Some dbr
       \<and> rd_buf dbr 0 (writeIndex qc) = rd_buf dbw 0 (bufferIndex qf)
       \<and> rd_buf dbw 0 (bufferIndex qf) \<noteq> None
       \<and> bandBuffers qf' = Some bbw
       \<and> rd_buf dbw 0 (bufferIndex qf) = rd_buf bbw 0 1
       \<and> compress_step qc oc 1 = Some (qc', oc')
       \<and> compressed_sample qc (\<lambda>b. bbw ! b ! 1)
           = (fl, fr, compressorLow qc', compressorMid qc', compressorHigh qc')
       \<and> rd_sample oc' 0 1 = Some (if outputChannelIndex qc = 0 then fr else fl)
       \<and> rd_sample outs' 0 1 = Some (if outputChannelIndex qc = 0 then fr else fl))"
proof -
  have h: "engine_ok (OTT_Initialize 44100) \<and> \<not> bypass (OTT_Initialize 44100)
     \<and> channels_ok [Some [1, 1], Some [2, 2]] 2 \<and> channels_ok [Some [0, 0], Some [0, 0]] 2
     \<and> (0::nat) < 2 \<and> 2 \<le> DELAY_BUFFER_SIZE \<and> (1::nat) < 2 \<and> (0::nat) < 8"
    by (simp add: Initialize_engine channels_ok_def DELAY_BUFFER_SIZE_def)
  from delay_read_follows_write [of "OTT_Initialize 44100" "[Some [1, 1], Some [2, 2]]" 2
      "[Some [0, 0], Some [0, 0]]" 1 0] h
  obtain p1 le re p3 p5 outs' qf qf' qc oc dbw dbr bbw qc' oc' fl fr where
    f: "filter_loop (advancedMode p1) (p1\<lparr>peakEnvelopeLeft := le, peakEnvelopeRight := re\<rparr>)
           [Some [1, 1], Some [2, 2]] (inputChannelIndex p1) 0 2 = Some p3"
       "OTT_ProcessAudio (OTT_Initialize 44100) [Some [1, 1], Some [2, 2]]
           [Some [0, 0], Some [0, 0]] (int 2) = Some (store_meters p5, outs')"
       "filter_loop (advancedMode p1) (p1\<lparr>peakEnvelopeLeft := le, peakEnvelopeRight := re\<rparr>)
           [Some [1, 1], Some [2, 2]] (inputChannelIndex p1) 0 1 = Some qf"
       "filter_loop (advancedMode p1) (p1\<lparr>peakEnvelopeLeft := le, peakEnvelopeRight := re\<rparr>)
           [Some [1, 1], Some [2, 2]] (inputChannelIndex p1) 0 (Suc 1) = Some qf'"
       "compress_loop (p3\<lparr>writeIndex := read_position (bufferIndex p3) 2\<rparr>)
           [Some [0, 0], Some [0, 0]] 0 1 = Some (qc, oc)"
       "writeIndex qc = bufferIndex qf"
       "delayBuffers qf' = Some dbw" "delayBuffers qc = Some dbr"
       "rd_buf dbr 0 (writeIndex qc) = rd_buf dbw 0 (bufferIndex qf)"
       "rd_buf dbw 0 (bufferIndex qf) \<noteq> None"
       "bandBuffers qf' = Some bbw"
    and g: "rd_buf dbw 0 (bufferIndex qf) =
         (if (0::nat) < 6 then rd_buf bbw 0 1
          else if (0::nat) = 6 then rd_sample [Some [1, 1], Some [2, 2]] 0 1
          else rd_sample [Some [1, 1], Some [2, 2]] (inputChannelIndex p1) 1)"
       "compress_step qc oc 1 = Some (qc', oc')"
       "compressed_sample qc (\<lambda>b. bbw ! b ! 1)
           = (fl, fr, compressorLow qc', compressorMid qc', compressorHigh qc')"
       "rd_sample oc' 0 1 = Some (if outputChannelIndex qc = 0 then fr else fl)"
       "rd_sample outs' 0 1 = Some (if outputChannelIndex qc = 0 then fr else fl)"
    by blast
  have g1: "rd_buf dbw 0 (bufferIndex qf) = rd_buf bbw 0 1" using g(1) by simp
  show ?thesis using h f g1 g(2-5) by blast
qed


text \<open>
  C3 at a failing input: a freshly initialised engine and a one-sample stereo block
  with two distinct input and two distinct output buffers. Both channel indices are 0,
  the call returns, the second output buffer is left as it was, and the result does
  not depend on the second input channel.
\<close>

theorem second_channel_collapsed:
  "inputChannelIndex (OTT_Initialize 44100) = 0
   \<and> outputChannelIndex (OTT_Initialize 44100) = 0
   \<and> OTT_ProcessAudio (OTT_Initialize 44100) [Some [1], Some [2]] [Some [0], Some [7]] 1
       \<noteq> None
   \<and> snd (the (OTT_ProcessAudio (OTT_Initialize 44100) [Some [1], Some [2]]
                  [Some [0], Some [7]] 1)) ! 1 = Some [7]
   \<and> OTT_ProcessAudio (OTT_Initialize 44100) [Some [1], Some [2]] [Some [0], Some [7]] 1
       = OTT_ProcessAudio (OTT_Initialize 44100) [Some [1], Some [999]] [Some [0], Some [7]] 1"
proof -
  have c: "channels_ok [Some [1], Some [2]] 1" "channels_ok [Some [0], Some [7]] 1"
    by (simp_all add: channels_ok_def)
  have n: "(0::nat) < 1" "1 \<le> DELAY_BUFFER_SIZE" by (simp_all add: DELAY_BUFFER_SIZE_def)
  from right_output_untouched [OF Initialize_engine(1,3) c n Initialize_facts(5)]
  obtain p' outs' where
    "OTT_ProcessAudio (OTT_Initialize 44100) [Some [1], Some [2]] [Some [0], Some [7]] (int 1)
       = Some (p', outs')" "outs' ! 1 = [Some [0], Some [7]] ! 1"
    by blast
  then have a: "OTT_ProcessAudio (OTT_Initialize 44100) [Some [1], Some [2]]
        [Some [0], Some [7]] 1 \<noteq> None"
      "snd (the (OTT_ProcessAudio (OTT_Initialize 44100) [Some [1], Some [2]]
                  [Some [0], Some [7]] 1)) ! 1 = Some [7]"
    by simp_all
  have b: "OTT_ProcessAudio (OTT_Initialize 44100) [Some [1], Some [2]] [Some [0], Some [7]] 1
       = OTT_ProcessAudio (OTT_Initialize 44100) [Some [1], Some [999]] [Some [0], Some [7]] 1"
    by (rule second_input_unused [OF Initialize_engine(3) Initialize_facts(4)]) simp_all
  show ?thesis using a b Initialize_facts(4,5) by simp
qed


section \<open>Finite output\<close>

subsection \<open>Bypass\<close>

lemma copy_block_nth:
  assumes "copy_block src dst i n = Some d"
  shows "length d = length dst
         \<and> (\<forall>k. d ! k = (if i \<le> k \<and> k < n then src ! k else dst ! k))
         \<and> (i < n \<longrightarrow> n \<le> length src \<and> n \<le> length dst)"
  using assms
proof (induction src dst i n arbitrary: d rule: copy_block.induct)
  case (1 src dst i n)
  show ?case
  proof (cases "i < n")
    case False
    then show ?thesis using "1.prems" by (simp add: copy_block.simps [of src dst i n])
  next
    case True
    then have r: "i < length src \<and> i < length dst"
      and c: "copy_block src (dst[i := src ! i]) (i + 1) n = Some d"
      using "1.prems" by (auto simp add: copy_block.simps [of src dst i n] split: if_splits)
    note ih = "1.IH" [OF True r c]
    have "d ! k = (if i \<le> k \<and> k < n then src ! k else dst ! k)" for k
      using ih r True by (cases "k = i") (auto simp add: nth_list_update)
    moreover have "n \<le> length src \<and> n \<le> length dst"
      using ih r True by (cases "i + 1 < n") auto
    ultimately show ?thesis using ih by simp
  qed
qed

lemma bypass_channel_result:
  assumes "bypass_channel ins outs c n = Some outs'"
  shows "rd_sample outs' c' i =
           (if c' = c \<and> i < n \<and> ins ! c \<noteq> None \<and> outs ! c \<noteq> None
            then rd_sample ins c i else rd_sample outs c' i)"
proof (cases "ins ! c")
  case None
  then have "outs' = outs"
    using assms by (auto simp add: bypass_channel_def chan_ptr_def split: if_splits)
  then show ?thesis using None by simp
next
  case (Some src)
  note src = Some
  from assms have l: "c < length ins" "c < length outs"
    using src by (auto simp add: bypass_channel_def chan_ptr_def split: if_splits)
  show ?thesis
  proof (cases "outs ! c")
    case None
    then have "outs' = outs"
      using assms l src by (auto simp add: bypass_channel_def chan_ptr_def)
    then show ?thesis using None by simp
  next
    case (Some dst)
    from assms l src Some obtain d where
      cb: "copy_block src dst 0 n = Some d" and o: "outs' = outs[c := Some d]"
      by (auto simp add: bypass_channel_def chan_ptr_def split: option.splits)
    note cn = copy_block_nth [OF cb]
    show ?thesis
      using l src Some o cn
      by (auto simp add: rd_sample_def chan_ptr_def nth_list_update)
  qed
qed

lemma bypass_copy_result:
  assumes "bypass_copy ins outs n = Some outs'" "length outs = 2"
    and "c < 2" "i < n" "ins ! c \<noteq> None" "outs ! c \<noteq> None"
  shows "rd_sample outs' c i = rd_sample ins c i"
proof -
  from assms(1) obtain o1 where
    b: "bypass_channel ins outs 0 n = Some o1" "bypass_channel ins o1 1 n = Some outs'"
    by (auto simp add: bypass_copy_def split: option.splits)
  have o1: "o1 ! 1 = outs ! 1"
    using b(1) assms(2)
    by (auto simp add: bypass_channel_def chan_ptr_def split: option.splits if_splits)
  have "c = 0 \<or> c = 1" using assms(3) by arith
  then show ?thesis
  proof
    assume c: "c = 0"
    have "rd_sample outs' 0 i = rd_sample o1 0 i"
      using bypass_channel_result [OF b(2), of 0 i] by simp
    then show ?thesis
      using bypass_channel_result [OF b(1), of 0 i] assms(4,5,6) c by simp
  next
    assume c: "c = 1"
    show ?thesis
      using bypass_channel_result [OF b(2), of 1 i] assms(4,5,6) c o1 by simp
  qed
qed

subsection \<open>The first block of an initialised engine\<close>

lemma envelope_output_pos:
  "0 < envelope_output (snd (ProcessCompressorBand c P ol bg tc))"
  using constants_sign(1)
  by (simp add: ProcessCompressorBand_def Let_def case_prod_beta)

lemma ProcessCompressorBand_fst:
  "fst (ProcessCompressorBand c P ol bg tc)
     = envelope_output (snd (ProcessCompressorBand c P ol bg tc)) * ol * bg"
  by (simp add: ProcessCompressorBand_def Let_def case_prod_beta)

lemma SetParameter_frame_gain:
  "depthSmoother (OTT_SetParameter q i v) = depthSmoother q"
  "upwardSmoother (OTT_SetParameter q i v) = upwardSmoother q"
  "outputSmoother (OTT_SetParameter q i v) = outputSmoother q"
  "finalGain (OTT_SetParameter q i v) = finalGain q"
  by (simp_all add: OTT_SetParameter_def Let_def)

lemma Initialize_values:
  "depth (OTT_Initialize sr) = 1 / 2" "upwardRatio (OTT_Initialize sr) = 6 / 10"
  "depthSmoother (OTT_Initialize sr) = (0, 1 / 100)"
  "upwardSmoother (OTT_Initialize sr) = (0, 1 / 100)"
  "outputSmoother (OTT_Initialize sr) = (1, 5 / 1000)"
  "finalGain (OTT_Initialize sr) = 0"
  "lowBandGain (OTT_Initialize sr) = 1 / 2" "midBandGain (OTT_Initialize sr) = 1 / 2"
  "highBandGain (OTT_Initialize sr) = 1 / 2"
  "bandBuffers (OTT_Initialize sr) = Some (replicate 6 (replicate DELAY_BUFFER_SIZE 0))"
  by (simp_all add: OTT_Initialize_def Let_def SetupOTTCrossoverFilters_def
      defaults_frame [where sel = depthSmoother] defaults_frame [where sel = upwardSmoother]
      defaults_frame [where sel = outputSmoother] defaults_frame [where sel = finalGain]
      defaults_frame [where sel = bandBuffers] SetParameter_frame SetParameter_frame_gain
      zero_plugin_def)

text \<open>
  What an iteration of the simple-mode filtering loop leaves in the band buffers at the
  in-block index: the low band from the cascaded low-pass filters, the high band from
  the high-pass filter. The mid band (buffers 2 and 3) is not written, and the
  compressors and the output gain are not touched.
\<close>

lemma simple_step_bands:
  assumes st: "simple_step p ins rc i = Some p'"
    and r: "rd_sample ins 0 i = Some inL" "rd_sample ins rc i = Some inR"
    and b: "bandBuffers p = Some bb"
  defines "su \<equiv> (upwardRatio p - fst (upwardSmoother p)) * snd (upwardSmoother p)
                  + fst (upwardSmoother p)"
    and "pg \<equiv> ((depth p - fst (depthSmoother p)) * snd (depthSmoother p)
                  + fst (depthSmoother p)) * COMPRESSION_SCALING + 1"
  shows "\<exists>bb'. bandBuffers p' = Some bb' \<and> bb' ! 2 = bb ! 2 \<and> bb' ! 3 = bb ! 3
     \<and> bb' ! 0 ! i = GetBiquadLowpass (ProcessBiquadFilter (crossoverFilters p 2)
           (GetBiquadLowpass (ProcessBiquadFilter (crossoverFilters p 0) (su * inL)))) * pg
     \<and> bb' ! 1 ! i = GetBiquadLowpass (ProcessBiquadFilter (crossoverFilters p 3)
           (GetBiquadLowpass (ProcessBiquadFilter (crossoverFilters p 1) (su * inR)))) * pg
     \<and> bb' ! 4 ! i = GetBiquadHighpass (ProcessBiquadFilter (crossoverFilters p 4) (su * inL)) * pg
     \<and> bb' ! 5 ! i = GetBiquadHighpass (ProcessBiquadFilter (crossoverFilters p 5) (su * inR)) * pg
     \<and> compressorLow p' = compressorLow p \<and> compressorMid p' = compressorMid p
     \<and> compressorHigh p' = compressorHigh p
     \<and> finalGain p' = finalGain p \<and> outputSmoother p' = outputSmoother p
     \<and> lowBandGain p' = lowBandGain p \<and> midBandGain p' = midBandGain p
     \<and> highBandGain p' = highBandGain p"
proof -
  define V0 where "V0 = GetBiquadLowpass (ProcessBiquadFilter (crossoverFilters p 2)
           (GetBiquadLowpass (ProcessBiquadFilter (crossoverFilters p 0) (su * inL)))) * pg"
  define V1 where "V1 = GetBiquadLowpass (ProcessBiquadFilter (crossoverFilters p 3)
           (GetBiquadLowpass (ProcessBiquadFilter (crossoverFilters p 1) (su * inR)))) * pg"
  define V4 where "V4 = GetBiquadHighpass (ProcessBiquadFilter (crossoverFilters p 4) (su * inL)) * pg"
  define V5 where "V5 = GetBiquadHighpass (ProcessBiquadFilter (crossoverFilters p 5) (su * inR)) * pg"
  from st r b obtain q bb1 bb2 bb3 bb4 where
    w: "wr_buf bb 0 i V0 = Some bb1" "wr_buf bb1 1 i V1 = Some bb2"
       "wr_buf bb2 4 i V4 = Some bb3" "wr_buf bb3 5 i V5 = Some bb4"
    and s: "store_delay q bb4 inL inR i = Some p'"
    and q: "compressorLow q = compressorLow p" "compressorMid q = compressorMid p"
       "compressorHigh q = compressorHigh p" "finalGain q = finalGain p"
       "outputSmoother q = outputSmoother p" "lowBandGain q = lowBandGain p"
       "midBandGain q = midBandGain p" "highBandGain q = highBandGain p"
    by (auto simp add: simple_step_def Let_def V0_def V1_def V4_def V5_def su_def pg_def
        split: option.splits)
  from store_delay_Some [OF s] have p': "bandBuffers p' = Some bb4"
    "compressorLow p' = compressorLow q" "compressorMid p' = compressorMid q"
    "compressorHigh p' = compressorHigh q" "finalGain p' = finalGain q"
    "outputSmoother p' = outputSmoother q" "lowBandGain p' = lowBandGain q"
    "midBandGain p' = midBandGain q" "highBandGain p' = highBandGain q"
    by auto
  note n1 = wr_buf_nth [OF w(1)] and n2 = wr_buf_nth [OF w(2)]
    and n3 = wr_buf_nth [OF w(3)] and n4 = wr_buf_nth [OF w(4)]
  have vals: "bb4 ! 0 ! i = V0" "bb4 ! 1 ! i = V1" "bb4 ! 4 ! i = V4" "bb4 ! 5 ! i = V5"
    by (simp_all add: n1 n2 n3 n4)
  have mid: "bb4 ! 2 = bb ! 2" "bb4 ! 3 = bb ! 3"
    using wr_buf_Some(3) [OF w(1)] wr_buf_Some(3) [OF w(2)] wr_buf_Some(3) [OF w(3)]
      wr_buf_Some(3) [OF w(4)] by simp_all
  show ?thesis
    using p' q vals mid unfolding V0_def V1_def V4_def V5_def by simp
qed

text \<open>
  A filter as \<open>SetupOTTCrossoverFilters\<close> leaves it, on its first input \<open>u\<close>: with \<open>t\<close>
  the tangent of the normalised frequency and \<open>D = 1 / ((1 / t + t) * t + 1)\<close>, the
  low-pass output is \<open>u * (D * t * t)\<close> and the high-pass output is
  \<open>u * (1 - D * t * D - D * t * t)\<close>.
\<close>

lemma fresh_filter_outputs:
  fixes fr sr u :: real
  defines "t \<equiv> tan (fr * pi / sr)"
  defines "D \<equiv> 1 / ((1 / t + t) * t + 1)"
  defines "g \<equiv> ProcessBiquadFilter
                  (CalculateBiquadCoefficients (InitializeBiquadFilter zero_filter) fr sr) u"
  shows "GetBiquadLowpass g = u * (D * t * t)"
    and "GetBiquadHighpass g = u * (1 - D * t * D - D * t * t)"
proof -
  have f: "input_store g = u" "intermediate g = u * (D * t)" "filter_output g = u * (D * t * t)"
    "b1 g = D"
    by (simp_all add: g_def D_def t_def ProcessBiquadFilter_def CalculateBiquadCoefficients_def
        InitializeBiquadFilter_def zero_filter_def Let_def)
  show "GetBiquadLowpass g = u * (D * t * t)" by (simp add: GetBiquadLowpass_def f)
  show "GetBiquadHighpass g = u * (1 - D * t * D - D * t * t)"
    by (simp add: GetBiquadHighpass_def f algebra_simps)
qed

lemma crossover_factor_nonneg:
  fixes t :: real
  shows "0 \<le> 1 / ((1 / t + t) * t + 1) * t * t"
proof (cases "t = 0")
  case True
  then show ?thesis by simp
next
  case False
  then have "(1 / t + t) * t + 1 = 2 + t * t" by (simp add: field_simps)
  moreover have "0 \<le> t * t" by simp
  ultimately show ?thesis by simp
qed

lemma crossover_factor_le_one:
  fixes t :: real
  shows "1 / ((1 / t + t) * t + 1) * t * t \<le> 1"
proof (cases "t = 0")
  case True
  then show ?thesis by simp
next
  case False
  then have e: "(1 / t + t) * t + 1 = 2 + t * t" by (simp add: field_simps)
  have "0 \<le> t * t" by simp
  then have "t * t \<le> 2 + t * t" "0 < 2 + t * t" by linarith+
  then have "t * t / (2 + t * t) \<le> 1" by (simp only: divide_le_eq_1_pos)
  then show ?thesis by (simp add: e)
qed

lemma crossover_factor_high:
  fixes t :: real
  assumes "0 < t" "t < 1"
  defines "D \<equiv> 1 / ((1 / t + t) * t + 1)"
  shows "1 / 4 \<le> 1 - D * t * D - D * t * t" "1 - D * t * D - D * t * t \<le> 1"
proof -
  have e: "(1 / t + t) * t + 1 = 2 + t * t" using assms(1) by (simp add: field_simps)
  have "t * t < 1 * 1" using assms(1,2) by (intro mult_strict_mono) simp_all
  then have tt: "0 < t * t" "t * t < 1" using assms(1) by simp_all
  have D: "0 < D" "D \<le> 1 / 2"
    unfolding D_def e using tt by (simp_all add: field_simps)
  have a: "D * t \<le> 1 / 2 * 1"
    using D assms by (intro mult_mono) simp_all
  have "D * t * D \<le> 1 / 2 * (1 / 2)"
    using a D assms by (intro mult_mono) simp_all
  moreover have "D * t * t \<le> 1 / 2 * 1"
    using a D assms by (intro mult_mono) simp_all
  ultimately show "1 / 4 \<le> 1 - D * t * D - D * t * t" by simp
  have "0 \<le> D * t * D" "0 \<le> D * t * t" using D assms(1) by simp_all
  then show "1 - D * t * D - D * t * t \<le> 1" by simp
qed

lemma compressed_sample_fields:
  assumes "finalGain p = finalGain q" "outputSmoother p = outputSmoother q"
    and "compressorLow p = compressorLow q" "compressorMid p = compressorMid q"
    and "compressorHigh p = compressorHigh q" "lowBandGain p = lowBandGain q"
    and "midBandGain p = midBandGain q" "highBandGain p = highBandGain q"
  shows "compressed_sample p s = compressed_sample q s"
  using assms by (simp add: compressed_sample_def)

text \<open>The components of \<open>compressed_sample\<close>, the gains written through the stored envelopes.\<close>

lemma compressed_sample_parts:
  assumes "compressed_sample p s = (fl, fr, cl, cm, ch)"
  defines "so \<equiv> (finalGain p - fst (outputSmoother p)) * snd (outputSmoother p)
                  + fst (outputSmoother p)"
  shows "cl = snd (ProcessCompressorBand (compressorLow p) (s 0 * s 0 + s 1 * s 1 + NOISE_FLOOR)
                    so (lowBandGain p) ENVELOPE_TIME_CONSTANT)"
    and "cm = snd (ProcessCompressorBand (compressorMid p) (s 2 * s 2 + s 3 * s 3 + NOISE_FLOOR)
                    so (midBandGain p) ENVELOPE_TIME_CONSTANT)"
    and "ch = snd (ProcessCompressorBand (compressorHigh p) (s 4 * s 4 + s 5 * s 5 + NOISE_FLOOR)
                    so (highBandGain p) ENVELOPE_TIME_CONSTANT)"
    and "fr = (s 1 * (envelope_output cl * so * lowBandGain p)
               + s 3 * (envelope_output cm * so * midBandGain p)
               + s 5 * (envelope_output ch * so * highBandGain p)) * so"
proof -
  from assms(1) have e: "cl = snd (ProcessCompressorBand (compressorLow p)
        (s 0 * s 0 + s 1 * s 1 + NOISE_FLOOR) so (lowBandGain p) ENVELOPE_TIME_CONSTANT)"
    "cm = snd (ProcessCompressorBand (compressorMid p) (s 2 * s 2 + s 3 * s 3 + NOISE_FLOOR)
                    so (midBandGain p) ENVELOPE_TIME_CONSTANT)"
    "ch = snd (ProcessCompressorBand (compressorHigh p) (s 4 * s 4 + s 5 * s 5 + NOISE_FLOOR)
                    so (highBandGain p) ENVELOPE_TIME_CONSTANT)"
    "fr = (s 1 * fst (ProcessCompressorBand (compressorLow p)
                       (s 0 * s 0 + s 1 * s 1 + NOISE_FLOOR) so (lowBandGain p)
                       ENVELOPE_TIME_CONSTANT)
           + s 3 * fst (ProcessCompressorBand (compressorMid p)
                       (s 2 * s 2 + s 3 * s 3 + NOISE_FLOOR) so (midBandGain p)
                       ENVELOPE_TIME_CONSTANT)
           + s 5 * fst (ProcessCompressorBand (compressorHigh p)
                       (s 4 * s 4 + s 5 * s 5 + NOISE_FLOOR) so (highBandGain p)
                       ENVELOPE_TIME_CONSTANT)) * so"
    by (auto simp add: compressed_sample_def Let_def so_def)
  show "cl = snd (ProcessCompressorBand (compressorLow p) (s 0 * s 0 + s 1 * s 1 + NOISE_FLOOR)
                    so (lowBandGain p) ENVELOPE_TIME_CONSTANT)" by (rule e(1))
  show "cm = snd (ProcessCompressorBand (compressorMid p) (s 2 * s 2 + s 3 * s 3 + NOISE_FLOOR)
                    so (midBandGain p) ENVELOPE_TIME_CONSTANT)" by (rule e(2))
  show "ch = snd (ProcessCompressorBand (compressorHigh p) (s 4 * s 4 + s 5 * s 5 + NOISE_FLOOR)
                    so (highBandGain p) ENVELOPE_TIME_CONSTANT)" by (rule e(3))
  show "fr = (s 1 * (envelope_output cl * so * lowBandGain p)
               + s 3 * (envelope_output cm * so * midBandGain p)
               + s 5 * (envelope_output ch * so * highBandGain p)) * so"
    unfolding e(1,2,3) ProcessCompressorBand_fst [symmetric] by (rule e(4))
qed

text \<open>
  The call on a freshly initialised engine with a block of one sample \<open>x\<close> (both
  channel indices are 0, so both channels carry \<open>x\<close>): one filtering iteration in
  simple mode, one compression iteration on the six band samples \<open>s\<close> it stored, the
  right output sample landing in the first output buffer.
\<close>

lemma first_sample_call:
  assumes ci: "channels_ok ins 1" and co: "channels_ok outs 1"
  shows "\<exists>p5 outs' x s fl fr su pg db.
      OTT_ProcessAudio (OTT_Initialize sr) ins outs 1 = Some (store_meters p5, outs')
    \<and> delayBuffers p5 = Some db \<and> db ! 2 ! 0 = 0 \<and> db ! 3 ! 0 = 0
    \<and> rd_sample ins 0 0 = Some x
    \<and> su = 3 / 500 \<and> pg = 1 / 200 * COMPRESSION_SCALING + 1
    \<and> s 2 = 0 \<and> s 3 = 0
    \<and> s 0 = GetBiquadLowpass (ProcessBiquadFilter (crossoverFilters (OTT_Initialize sr) 2)
          (GetBiquadLowpass (ProcessBiquadFilter (crossoverFilters (OTT_Initialize sr) 0)
             (su * x)))) * pg
    \<and> s 1 = GetBiquadLowpass (ProcessBiquadFilter (crossoverFilters (OTT_Initialize sr) 3)
          (GetBiquadLowpass (ProcessBiquadFilter (crossoverFilters (OTT_Initialize sr) 1)
             (su * x)))) * pg
    \<and> s 4 = GetBiquadHighpass (ProcessBiquadFilter (crossoverFilters (OTT_Initialize sr) 4)
          (su * x)) * pg
    \<and> s 5 = GetBiquadHighpass (ProcessBiquadFilter (crossoverFilters (OTT_Initialize sr) 5)
          (su * x)) * pg
    \<and> compressed_sample (OTT_Initialize sr) s
        = (fl, fr, compressorLow p5, compressorMid p5, compressorHigh p5)
    \<and> rd_sample outs' 0 0 = Some fr
    \<and> lowBandGain p5 = 1 / 2 \<and> midBandGain p5 = 1 / 2 \<and> highBandGain p5 = 1 / 2"
proof -
  define p0 where "p0 = OTT_Initialize sr"
  have e0: "engine_ok p0" and nb: "\<not> bypass p0"
    using Initialize_engine [of sr] by (simp_all add: p0_def)
  have n: "(0::nat) < 1" "1 \<le> DELAY_BUFFER_SIZE" by (simp_all add: DELAY_BUFFER_SIZE_def)
  from process_run [OF e0 nb ci co n] obtain p1 le re p3 p5 outs' where
    p1: "p1 = p0\<lparr>inputChannelIndex := (if ins ! 1 = None then 0 else inputChannelIndex p0),
             outputChannelIndex := (if outs ! 1 = None then 0 else outputChannelIndex p0)\<rparr>"
    and fl: "filter_loop (advancedMode p1) (p1\<lparr>peakEnvelopeLeft := le, peakEnvelopeRight := re\<rparr>)
               ins (inputChannelIndex p1) 0 1 = Some p3"
    and cl: "compress_loop (p3\<lparr>writeIndex := read_position (bufferIndex p3) 1\<rparr>) outs 0 1
               = Some (p5, outs')"
    and pa: "OTT_ProcessAudio p0 ins outs (int 1) = Some (store_meters p5, outs')"
    and e3: "buffers_ok p3" "config p3 = config p1"
      "read_position (bufferIndex p3) 1 = bufferIndex p0"
    and rd: "chan_ready ins 0 1"
    by blast
  define p2 where "p2 = p1\<lparr>peakEnvelopeLeft := le, peakEnvelopeRight := re\<rparr>"
  define p4 where "p4 = p3\<lparr>writeIndex := read_position (bufferIndex p3) 1\<rparr>"
  have i1: "inputChannelIndex p1 = 0" "outputChannelIndex p1 = 0" "advancedMode p1 = False"
    using Initialize_facts(4,5,8) [of sr] by (simp_all add: p1 p0_def)
  have step: "simple_step p2 ins 0 0 = Some p3"
    using filter_loop_single [of False p2 ins 0 0 p3] fl by (simp add: i1 p2_def)
  obtain x where x: "rd_sample ins 0 0 = Some x"
    using rd_sample_ok [OF rd, of 0] by auto
  have f2: "upwardRatio p2 = 6 / 10" "upwardSmoother p2 = (0, 1 / 100)" "depth p2 = 1 / 2"
    "depthSmoother p2 = (0, 1 / 100)"
    "bandBuffers p2 = Some (replicate 6 (replicate DELAY_BUFFER_SIZE 0))"
    "bufferIndex p2 = 0" "crossoverFilters p2 = crossoverFilters p0"
    using Initialize_values [of sr] Initialize_facts(6) [of sr] by (simp_all add: p2_def p1 p0_def)
  have g2: "finalGain p2 = finalGain p0" "outputSmoother p2 = outputSmoother p0"
    "compressorLow p2 = compressorLow p0" "compressorMid p2 = compressorMid p0"
    "compressorHigh p2 = compressorHigh p0" "lowBandGain p2 = lowBandGain p0"
    "midBandGain p2 = midBandGain p0" "highBandGain p2 = highBandGain p0"
    by (simp_all add: p2_def p1)
  define su :: real where "su = 3 / 500"
  define pg where "pg = 1 / 200 * COMPRESSION_SCALING + 1"
  from simple_step_bands [OF step x x f2(5)] obtain bb' where
    b: "bandBuffers p3 = Some bb'"
       "bb' ! 2 = replicate 6 (replicate DELAY_BUFFER_SIZE 0) ! 2"
       "bb' ! 3 = replicate 6 (replicate DELAY_BUFFER_SIZE 0) ! 3"
       "bb' ! 0 ! 0 = GetBiquadLowpass (ProcessBiquadFilter (crossoverFilters p0 2)
           (GetBiquadLowpass (ProcessBiquadFilter (crossoverFilters p0 0) (su * x)))) * pg"
       "bb' ! 1 ! 0 = GetBiquadLowpass (ProcessBiquadFilter (crossoverFilters p0 3)
           (GetBiquadLowpass (ProcessBiquadFilter (crossoverFilters p0 1) (su * x)))) * pg"
       "bb' ! 4 ! 0 = GetBiquadHighpass (ProcessBiquadFilter (crossoverFilters p0 4) (su * x)) * pg"
       "bb' ! 5 ! 0 = GetBiquadHighpass (ProcessBiquadFilter (crossoverFilters p0 5) (su * x)) * pg"
    and g3: "compressorLow p3 = compressorLow p2" "compressorMid p3 = compressorMid p2"
       "compressorHigh p3 = compressorHigh p2" "finalGain p3 = finalGain p2"
       "outputSmoother p3 = outputSmoother p2" "lowBandGain p3 = lowBandGain p2"
       "midBandGain p3 = midBandGain p2" "highBandGain p3 = highBandGain p2"
    unfolding f2(1-4,7) su_def pg_def by (auto simp add: mult.commute)
  have "(if False then advanced_step p2 ins 0 0 else simple_step p2 ins 0 0) = Some p3"
    using step by simp
  from filter_step_written [OF this] obtain db' bb'' where
    d3: "delayBuffers p3 = Some db'" "bandBuffers p3 = Some bb''"
      "\<forall>j<6. db' ! j ! bufferIndex p2 = bb'' ! j ! 0"
    by blast
  have dv: "db' ! j ! 0 = bb' ! j ! 0" if "j < 6" for j
    using d3 b(1) f2(6) that by simp
  have rp: "read_position (bufferIndex p3) 1 = 0"
    using e3(3) Initialize_facts(6) [of sr] by (simp add: p0_def)
  have f4: "delayBuffers p4 = Some db'" "writeIndex p4 = 0" "outputChannelIndex p4 = 0"
    using d3(1) rp e3(2) i1 by (simp_all add: p4_def config_def)
  have cstep: "compress_step p4 outs 0 = Some (p5, outs')"
    using cl compress_loop_single [of p4 outs 0] by (simp add: p4_def)
  obtain fl' fr cl' cm ch where
    cv: "compressed_sample p4 (\<lambda>b. db' ! b ! writeIndex p4) = (fl', fr, cl', cm, ch)"
    by (metis prod_cases5)
  note val = compress_step_value [OF cstep f4(1) cv]
  define s where "s = (\<lambda>b. db' ! b ! (0::nat))"
  have "compressed_sample p0 s = compressed_sample p4 s"
    by (rule compressed_sample_fields) (simp_all add: p4_def g3 g2)
  then have cs0: "compressed_sample p0 s
      = (fl', fr, compressorLow p5, compressorMid p5, compressorHigh p5)"
    using cv val by (simp add: s_def f4(2))
  have out: "rd_sample outs' 0 0 = Some fr" using val f4(3) by simp
  have ok4: "buffers_ok p4" using e3(1) by (simp add: p4_def buffers_ok_def)
  have d5: "delayBuffers p5 = Some db'"
    using compress_step_effect [OF cstep ok4] f4(1) by simp
  have gains: "lowBandGain p5 = 1 / 2" "midBandGain p5 = 1 / 2" "highBandGain p5 = 1 / 2"
    using val Initialize_values(7,8,9) [of sr] by (simp_all add: p4_def g3 g2 p0_def)
  have z: "s 2 = 0" "s 3 = 0"
    using dv [of 2] dv [of 3] b(2,3) by (simp_all add: s_def DELAY_BUFFER_SIZE_def)
  have sv: "s 0 = GetBiquadLowpass (ProcessBiquadFilter (crossoverFilters p0 2)
           (GetBiquadLowpass (ProcessBiquadFilter (crossoverFilters p0 0) (su * x)))) * pg"
       "s 1 = GetBiquadLowpass (ProcessBiquadFilter (crossoverFilters p0 3)
           (GetBiquadLowpass (ProcessBiquadFilter (crossoverFilters p0 1) (su * x)))) * pg"
       "s 4 = GetBiquadHighpass (ProcessBiquadFilter (crossoverFilters p0 4) (su * x)) * pg"
       "s 5 = GetBiquadHighpass (ProcessBiquadFilter (crossoverFilters p0 5) (su * x)) * pg"
    using dv [of 0] dv [of 1] dv [of 4] dv [of 5] b(4-7) by (simp_all add: s_def)
  have dz: "db' ! 2 ! 0 = 0" "db' ! 3 ! 0 = 0" using z by (simp_all add: s_def)
  show ?thesis
    using pa d5 dz x su_def pg_def z sv cs0 out gains unfolding p0_def
    by (simp only: of_nat_1) blast
qed

lemma power_two_bounds:
  "(2::real) ^ 1024 \<le> 2 ^ 2048" "(2::real) ^ 128 * 2 \<le> 2 ^ 2048"
  "(2::real) ^ 128 * 2048 \<le> 2 ^ 2048"
proof -
  show "(2::real) ^ 1024 \<le> 2 ^ 2048" by (intro power_increasing) simp_all
  have "(2::real) ^ 128 * 2 = 2 ^ 129" by simp
  also have "\<dots> \<le> 2 ^ 2048" by (intro power_increasing) simp_all
  finally show "(2::real) ^ 128 * 2 \<le> 2 ^ 2048" .
  have "(2::real) ^ 128 * 2048 = 2 ^ 128 * 2 ^ 11" by simp
  also have "\<dots> = 2 ^ 139" by (simp only: power_add [symmetric]) simp
  also have "\<dots> \<le> 2 ^ 2048" by (intro power_increasing) simp_all
  finally show "(2::real) ^ 128 * 2048 \<le> 2 ^ 2048" .
qed

text \<open>The compressors of a freshly initialised engine meet the conditions of the first call.\<close>

lemma Initialize_first_call:
  assumes "c = compressorLow (OTT_Initialize sr) \<or> c = compressorMid (OTT_Initialize sr)
           \<or> c = compressorHigh (OTT_Initialize sr)"
    and "0 \<le> P" "P \<le> 1"
  shows "2 ^ 2048 \<le> envelope_output (snd (ProcessCompressorBand c P ol bg ENVELOPE_TIME_CONSTANT))"
  using assms
  by (intro first_call_overflows)
    (auto simp add: Initialize_compressorLow Initialize_compressorMid Initialize_compressorHigh
      SetCompressorParameters_def InitializeCompressor_def NEGATIVE_THRESHOLD_def)

text \<open>
  The mid band of the first block. In simple mode the filtering pass never writes the
  mid-band buffers, so the compression pass reads the zeros of the allocation, the
  mid-band power is the noise floor, and the mid-band compressor stores a gain that no
  double holds.
\<close>

lemma first_block_mid_band:
  assumes "channels_ok ins 1" "channels_ok outs 1"
  shows "\<exists>p' outs' db. OTT_ProcessAudio (OTT_Initialize sr) ins outs 1 = Some (p', outs')
           \<and> delayBuffers p' = Some db \<and> db ! 2 ! 0 = 0 \<and> db ! 3 ! 0 = 0
           \<and> DBL_OVERFLOW \<le> envelope_output (compressorMid p')
           \<and> FLT_OVERFLOW \<le> compressorStates p' 1"
proof -
  from first_sample_call [OF assms, of sr] obtain p5 outs' s fl fr db where
    pa: "OTT_ProcessAudio (OTT_Initialize sr) ins outs 1 = Some (store_meters p5, outs')"
    and d: "delayBuffers p5 = Some db" "db ! 2 ! 0 = 0" "db ! 3 ! 0 = 0"
    and z: "s 2 = 0" "s 3 = 0"
    and cs: "compressed_sample (OTT_Initialize sr) s
        = (fl, fr, compressorLow p5, compressorMid p5, compressorHigh p5)"
    and g: "midBandGain p5 = 1 / 2"
    by blast
  define G where "G = envelope_output (compressorMid p5)"
  have "2 ^ 2048 \<le> G"
    unfolding G_def compressed_sample_parts(2) [OF cs]
    by (rule Initialize_first_call [where sr = sr]) (simp_all add: z NOISE_FLOOR_def)
  then have b: "DBL_OVERFLOW \<le> G" "FLT_OVERFLOW \<le> G * (1 / 2)"
    using power_two_bounds(1,2) by (simp_all add: DBL_OVERFLOW_def FLT_OVERFLOW_def)
  have "envelope_output (compressorMid (store_meters p5)) = G"
    "compressorStates (store_meters p5) 1 = G * (1 / 2)"
    "delayBuffers (store_meters p5) = Some db"
    by (simp_all add: store_meters_def G_def g d(1))
  then show ?thesis using pa b d(2,3) by simp
qed

text \<open>
  The output sample of the first block for the input sample 1 at 44100 Hz: the
  high-band sample is at least 0.0015, the low-band term is not negative, the mid-band
  sample is 0, and the high-band gain is more than \<open>2 ^ 2048 * 0.49\<close>.
\<close>

lemma first_block_output:
  "\<exists>p' outs' y. OTT_ProcessAudio (OTT_Initialize 44100) [Some [1], Some [1]]
                    [Some [0], Some [0]] 1 = Some (p', outs')
     \<and> DBL_OVERFLOW \<le> envelope_output (compressorLow p')
     \<and> DBL_OVERFLOW \<le> envelope_output (compressorMid p')
     \<and> DBL_OVERFLOW \<le> envelope_output (compressorHigh p')
     \<and> rd_sample outs' 0 0 = Some y \<and> FLT_OVERFLOW \<le> y"
proof -
  have c: "channels_ok [Some [1], Some [1]] 1" "channels_ok [Some [0], Some [0]] 1"
    by (simp_all add: channels_ok_def)
  define p0 where "p0 = OTT_Initialize 44100"
  from first_sample_call [OF c, of 44100] obtain p5 outs' x s fl fr su pg where
    pa: "OTT_ProcessAudio p0 [Some [1], Some [1]] [Some [0], Some [0]] 1
           = Some (store_meters p5, outs')"
    and x: "rd_sample [Some [1], Some [1]] 0 0 = Some x"
    and su: "su = 3 / 500" and pg: "pg = 1 / 200 * COMPRESSION_SCALING + 1"
    and z: "s 2 = 0" "s 3 = 0"
    and s0: "s 0 = GetBiquadLowpass (ProcessBiquadFilter (crossoverFilters p0 2)
          (GetBiquadLowpass (ProcessBiquadFilter (crossoverFilters p0 0) (su * x)))) * pg"
    and s1: "s 1 = GetBiquadLowpass (ProcessBiquadFilter (crossoverFilters p0 3)
          (GetBiquadLowpass (ProcessBiquadFilter (crossoverFilters p0 1) (su * x)))) * pg"
    and s4: "s 4 = GetBiquadHighpass (ProcessBiquadFilter (crossoverFilters p0 4) (su * x)) * pg"
    and s5: "s 5 = GetBiquadHighpass (ProcessBiquadFilter (crossoverFilters p0 5) (su * x)) * pg"
    and cs: "compressed_sample p0 s
        = (fl, fr, compressorLow p5, compressorMid p5, compressorHigh p5)"
    and out: "rd_sample outs' 0 0 = Some fr"
    unfolding p0_def by blast
  have x1: "x = 1" using x by (simp add: rd_sample_def chan_ptr_def)
  have pgb: "1 \<le> pg" "pg \<le> 2" by (simp_all add: pg COMPRESSION_SCALING_def)
  \<comment> \<open>the band samples\<close>
  define t where "t = tan (2000 * pi / 44100 :: real)"
  define D where "D = 1 / ((1 / t + t) * t + 1)"
  define kap where "kap = 1 - D * t * D - D * t * t"
  have t: "0 < t" "t < 1" using tan_crossover [of 2000 44100] by (simp_all add: t_def)
  have kap: "1 / 4 \<le> kap" "kap \<le> 1"
    using crossover_factor_high [OF t] by (simp_all add: kap_def D_def)
  have f45: "crossoverFilters p0 4
        = CalculateBiquadCoefficients (InitializeBiquadFilter zero_filter) 2000 44100"
    "crossoverFilters p0 5
        = CalculateBiquadCoefficients (InitializeBiquadFilter zero_filter) 2000 44100"
    by (simp_all add: p0_def Initialize_filters)
  have hp: "s 5 = su * kap * pg" "s 4 = su * kap * pg"
    unfolding s4 s5 f45 x1 fresh_filter_outputs(2) kap_def D_def t_def by simp_all
  have "3 / 500 * (1 / 4) * 1 \<le> su * kap * pg"
    unfolding su using kap pgb by (intro mult_mono) simp_all
  then have s5lo: "3 / 2000 \<le> s 5" by (simp add: hp)
  have "su * kap * pg \<le> 3 / 500 * 1 * 2"
    unfolding su using kap pgb by (intro mult_mono) simp_all
  then have s5hi: "s 5 \<le> 3 / 250" by (simp add: hp)
  have s45: "s 4 = s 5" by (simp add: hp)
  have "s 5 * s 5 \<le> 3 / 250 * (3 / 250)"
    using s5lo s5hi by (intro mult_mono) simp_all
  then have ph: "0 \<le> s 4 * s 4 + s 5 * s 5 + NOISE_FLOOR" "s 4 * s 4 + s 5 * s 5 + NOISE_FLOOR \<le> 1"
    by (simp_all add: s45 NOISE_FLOOR_def)
  have f13: "crossoverFilters p0 1
        = CalculateBiquadCoefficients (InitializeBiquadFilter zero_filter) 200 44100"
    "crossoverFilters p0 3
        = CalculateBiquadCoefficients (InitializeBiquadFilter zero_filter) 2000 44100"
    "crossoverFilters p0 0
        = CalculateBiquadCoefficients (InitializeBiquadFilter zero_filter) 200 44100"
    "crossoverFilters p0 2
        = CalculateBiquadCoefficients (InitializeBiquadFilter zero_filter) 2000 44100"
    by (simp_all add: p0_def Initialize_filters)
  define beta1 where "beta1 = 1 / ((1 / tan (200 * pi / 44100) + tan (200 * pi / 44100))
                                  * tan (200 * pi / 44100) + 1)
                                * tan (200 * pi / 44100) * tan (200 * pi / 44100 :: real)"
  define beta3 where "beta3 = D * t * t"
  have beta: "0 \<le> beta1" "0 \<le> beta3" "beta1 \<le> 1" "beta3 \<le> 1"
    using crossover_factor_nonneg [of "tan (200 * pi / 44100)"] crossover_factor_nonneg [of t]
      crossover_factor_le_one [of "tan (200 * pi / 44100)"] crossover_factor_le_one [of t]
    by (simp_all add: beta1_def beta3_def D_def)
  have s1e: "s 1 = su * beta1 * beta3 * pg" "s 0 = su * beta1 * beta3 * pg"
    unfolding s0 s1 f13 x1 fresh_filter_outputs(1) beta1_def beta3_def D_def t_def by simp_all
  have b13: "0 \<le> beta1 * beta3" using beta(1,2) by (rule mult_nonneg_nonneg)
  have "beta1 * beta3 \<le> 1 * 1" using beta by (intro mult_mono) simp_all
  then have b13': "beta1 * beta3 \<le> 1" by simp
  have sb: "su * beta1 * beta3 * pg = 3 / 500 * ((beta1 * beta3) * pg)" by (simp add: su)
  have "0 \<le> (beta1 * beta3) * pg" using b13 pgb by (simp only: mult_nonneg_nonneg)
  then have lo: "0 \<le> su * beta1 * beta3 * pg" unfolding sb by simp
  have "(beta1 * beta3) * pg \<le> 1 * 2" using b13 b13' pgb by (rule_tac mult_mono) simp_all
  then have hi: "su * beta1 * beta3 * pg \<le> 3 / 250" unfolding sb by simp
  have s1: "0 \<le> s 1" using lo by (simp only: s1e)
  define v where "v = su * beta1 * beta3 * pg"
  have v: "0 \<le> v" "v \<le> 3 / 250" using lo hi by (simp_all only: v_def)
  have "v * v \<le> 3 / 250 * (3 / 250)" using v by (rule_tac mult_mono) simp_all
  then have vv: "v * v \<le> 9 / 62500" "0 \<le> v * v" by simp_all
  have "0 \<le> v * v + v * v + 1 / 10 ^ 25" "v * v + v * v + 1 / 10 ^ 25 \<le> 1"
    using vv by simp_all
  then have pl: "0 \<le> s 0 * s 0 + s 1 * s 1 + NOISE_FLOOR" "s 0 * s 0 + s 1 * s 1 + NOISE_FLOOR \<le> 1"
    by (simp_all only: s1e v_def [symmetric] NOISE_FLOOR_def)
  \<comment> \<open>the gains\<close>
  define so where "so = (finalGain p0 - fst (outputSmoother p0)) * snd (outputSmoother p0)
                           + fst (outputSmoother p0)"
  have so: "so = 199 / 200" by (simp add: so_def p0_def Initialize_values)
  define L where "L = envelope_output (compressorLow p5)"
  define M where "M = envelope_output (compressorMid p5)"
  define H where "H = envelope_output (compressorHigh p5)"
  note parts = compressed_sample_parts [OF cs, folded so_def]
  have L: "0 < L" unfolding L_def parts(1) by (rule envelope_output_pos)
  have L2: "2 ^ 2048 \<le> L"
    unfolding L_def parts(1)
    by (rule Initialize_first_call [where sr = 44100, OF _ pl]) (simp add: p0_def)
  have M2: "2 ^ 2048 \<le> M"
    unfolding M_def parts(2)
    by (rule Initialize_first_call [where sr = 44100]) (simp_all add: p0_def z NOISE_FLOOR_def)
  have H: "2 ^ 2048 \<le> H"
    unfolding H_def parts(3)
    by (rule Initialize_first_call [where sr = 44100]) (simp_all add: p0_def ph)
  define A where "A = s 1 * (L * (1 / 2))"
  define C where "C = s 5 * H"
  have "fr = (s 1 * (L * so * (1 / 2)) + s 3 * (M * so * (1 / 2)) + s 5 * (H * so * (1 / 2))) * so"
    using parts(4) by (simp add: L_def M_def H_def p0_def Initialize_values)
  then have fr: "fr = (A * (199 / 200) + C * (199 / 400)) * (199 / 200)"
    unfolding so z A_def C_def by (simp add: algebra_simps)
  have H0: "0 \<le> H" using H by (rule order_trans [rotated]) simp
  have A0: "0 \<le> A" unfolding A_def using s1 L by (intro mult_nonneg_nonneg) simp_all
  have C0: "3 / 2000 * H \<le> C" unfolding C_def using s5lo H0 by (rule mult_right_mono)
  have "FLT_OVERFLOW * 2048 \<le> 2 ^ 2048"
    using power_two_bounds(3) by (simp only: FLT_OVERFLOW_def)
  then have F: "FLT_OVERFLOW * 2048 \<le> H" using H by (rule order_trans)
  have F0: "0 \<le> FLT_OVERFLOW" by (simp add: FLT_OVERFLOW_def)
  have "fr = A * (39601 / 40000) + C * (39601 / 80000)"
    unfolding fr by (simp add: algebra_simps)
  moreover have "0 \<le> A * (39601 / 40000)" using A0 by simp
  moreover have "3 / 2000 * H * (39601 / 80000) \<le> C * (39601 / 80000)"
    using C0 by (rule mult_right_mono) simp
  moreover have "FLT_OVERFLOW * 2048 * (3 / 2000 * (39601 / 80000))
      \<le> H * (3 / 2000 * (39601 / 80000))"
    using F by (rule mult_right_mono) simp
  moreover have "FLT_OVERFLOW \<le> FLT_OVERFLOW * 2048 * (3 / 2000 * (39601 / 80000))"
    using F0 by simp
  ultimately have "FLT_OVERFLOW \<le> fr" by linarith
  moreover have "DBL_OVERFLOW \<le> envelope_output (compressorLow (store_meters p5))"
    "DBL_OVERFLOW \<le> envelope_output (compressorMid (store_meters p5))"
    "DBL_OVERFLOW \<le> envelope_output (compressorHigh (store_meters p5))"
    using L2 M2 H power_two_bounds(1)
    by (simp_all add: store_meters_def DBL_OVERFLOW_def L_def M_def H_def)
  ultimately show ?thesis using pa out unfolding p0_def by blast
qed


text \<open>
  C1 at its failing input. The constants carry their integer values, as C reads them.

  With bypass on the claim holds: the call returns and every output sample of a channel
  whose input and output buffers both exist equals the input sample.

  With bypass off it fails on the first block after \<open>OTT_Initialize\<close>. For every
  sample rate and every block of one sample, whatever the sample, the call returns with
  \<open>envelope_output\<close> of the mid-band compressor at or above \<open>2 ^ 1024\<close> and its meter in
  \<open>compressorStates\<close>, a float, at or above \<open>2 ^ 128\<close>: the first compression iteration
  computes a gain of \<open>exp\<close> of more than \<open>10 ^ 55\<close>, and the stored double and float are
  \<^verbatim>\<open>+inf\<close>. The two mid-band samples the iteration read from the delay buffers and
  multiplied by that gain are 0, so C computes \<^verbatim>\<open>0 * inf\<close>, a NaN, into both output
  samples. For the input sample 1 at 44100 Hz all three compressors store such a gain,
  and the exact value of the output sample is itself at or above \<open>2 ^ 128\<close>.
\<close>

theorem first_block_not_finite:
  "(bypass p \<and> channels_ok ins n \<and> channels_ok outs n \<longrightarrow>
      (\<exists>outs'. OTT_ProcessAudio p ins outs (int n) = Some (p, outs')
         \<and> (\<forall>c i. c < 2 \<and> i < n \<and> ins ! c \<noteq> None \<and> outs ! c \<noteq> None
               \<longrightarrow> rd_sample outs' c i = rd_sample ins c i)))
   \<and> (channels_ok ins1 1 \<and> channels_ok outs1 1 \<longrightarrow>
      (\<exists>p' outs' db. OTT_ProcessAudio (OTT_Initialize sr) ins1 outs1 1 = Some (p', outs')
         \<and> delayBuffers p' = Some db \<and> db ! 2 ! 0 = 0 \<and> db ! 3 ! 0 = 0
         \<and> DBL_OVERFLOW \<le> envelope_output (compressorMid p')
         \<and> FLT_OVERFLOW \<le> compressorStates p' 1))
   \<and> (\<exists>p' outs' y. OTT_ProcessAudio (OTT_Initialize 44100) [Some [1], Some [1]]
                       [Some [0], Some [0]] 1 = Some (p', outs')
         \<and> DBL_OVERFLOW \<le> envelope_output (compressorLow p')
         \<and> DBL_OVERFLOW \<le> envelope_output (compressorMid p')
         \<and> DBL_OVERFLOW \<le> envelope_output (compressorHigh p')
         \<and> rd_sample outs' 0 0 = Some y \<and> FLT_OVERFLOW \<le> y)"
proof (intro conjI impI)
  assume h: "bypass p \<and> channels_ok ins n \<and> channels_ok outs n"
  then obtain outs' where b: "bypass_copy ins outs n = Some outs'"
    using bypass_copy_ok by blast
  have l: "length outs = 2" using h by (simp add: channels_ok_def)
  have "OTT_ProcessAudio p ins outs (int n) = Some (p, outs')"
    using h b by (simp add: OTT_ProcessAudio_def)
  moreover have "\<forall>c i. c < 2 \<and> i < n \<and> ins ! c \<noteq> None \<and> outs ! c \<noteq> None
               \<longrightarrow> rd_sample outs' c i = rd_sample ins c i"
    using bypass_copy_result [OF b l] by blast
  ultimately show "\<exists>outs'. OTT_ProcessAudio p ins outs (int n) = Some (p, outs')
         \<and> (\<forall>c i. c < 2 \<and> i < n \<and> ins ! c \<noteq> None \<and> outs ! c \<noteq> None
               \<longrightarrow> rd_sample outs' c i = rd_sample ins c i)"
    by blast
next
  assume "channels_ok ins1 1 \<and> channels_ok outs1 1"
  then show "\<exists>p' outs' db. OTT_ProcessAudio (OTT_Initialize sr) ins1 outs1 1 = Some (p', outs')
         \<and> delayBuffers p' = Some db \<and> db ! 2 ! 0 = 0 \<and> db ! 3 ! 0 = 0
         \<and> DBL_OVERFLOW \<le> envelope_output (compressorMid p')
         \<and> FLT_OVERFLOW \<le> compressorStates p' 1"
    using first_block_mid_band by blast
next
  show "\<exists>p' outs' y. OTT_ProcessAudio (OTT_Initialize 44100) [Some [1], Some [1]]
                       [Some [0], Some [0]] 1 = Some (p', outs')
         \<and> DBL_OVERFLOW \<le> envelope_output (compressorLow p')
         \<and> DBL_OVERFLOW \<le> envelope_output (compressorMid p')
         \<and> DBL_OVERFLOW \<le> envelope_output (compressorHigh p')
         \<and> rd_sample outs' 0 0 = Some y \<and> FLT_OVERFLOW \<le> y"
    by (rule first_block_output)
qed

text \<open>
  The witness of C1: a stereo block of one sample through the bypassed engine, and the
  same block through the engine as initialised.
\<close>

theorem first_block_not_finite_witness:
  "bypass ((OTT_Initialize 44100)\<lparr>bypass := True\<rparr>)
   \<and> channels_ok [Some [1], Some [2]] 1 \<and> channels_ok [Some [0], Some [0]] 1
   \<and> (\<exists>outs'. OTT_ProcessAudio ((OTT_Initialize 44100)\<lparr>bypass := True\<rparr>)
                  [Some [1], Some [2]] [Some [0], Some [0]] (int 1)
                = Some ((OTT_Initialize 44100)\<lparr>bypass := True\<rparr>, outs')
         \<and> rd_sample outs' 0 0 = Some 1 \<and> rd_sample outs' 1 0 = Some 2)
   \<and> envelope_output (compressorMid (OTT_Initialize 44100)) = 1
   \<and> (\<exists>p' outs' db. OTT_ProcessAudio (OTT_Initialize 44100)
                     [Some [1], Some [2]] [Some [0], Some [0]] 1 = Some (p', outs')
         \<and> delayBuffers p' = Some db \<and> db ! 2 ! 0 = 0 \<and> db ! 3 ! 0 = 0
         \<and> DBL_OVERFLOW \<le> envelope_output (compressorMid p')
         \<and> FLT_OVERFLOW \<le> compressorStates p' 1)"
proof -
  define pb where "pb = (OTT_Initialize 44100)\<lparr>bypass := True\<rparr>"
  define ins :: channels where "ins = [Some [1], Some [2]]"
  define outs :: channels where "outs = [Some [0], Some [0]]"
  have c: "channels_ok ins 1" "channels_ok outs 1"
    by (simp_all add: channels_ok_def ins_def outs_def)
  have hb: "bypass pb \<and> channels_ok ins 1 \<and> channels_ok outs 1"
    using c by (simp add: pb_def)
  have r: "rd_sample ins 0 0 = Some 1" "rd_sample ins 1 0 = Some 2"
    "ins ! 0 \<noteq> None" "ins ! 1 \<noteq> None" "outs ! 0 \<noteq> None" "outs ! 1 \<noteq> None"
    by (simp_all add: rd_sample_def chan_ptr_def ins_def outs_def)
  note inst = first_block_not_finite [of pb ins 1 outs ins outs 44100]
  from inst hb obtain outs' where
    b: "OTT_ProcessAudio pb ins outs (int 1) = Some (pb, outs')"
    and e: "\<forall>c i. c < 2 \<and> i < 1 \<and> ins ! c \<noteq> None \<and> outs ! c \<noteq> None
               \<longrightarrow> rd_sample outs' c i = rd_sample ins c i"
    by blast
  have v: "rd_sample outs' 0 0 = Some 1" "rd_sample outs' 1 0 = Some 2"
    using e [rule_format, of 0 0] e [rule_format, of 1 0] r by simp_all
  from inst c obtain p' outs'' db where
    m: "OTT_ProcessAudio (OTT_Initialize 44100) ins outs 1 = Some (p', outs'')"
      "delayBuffers p' = Some db" "db ! 2 ! 0 = 0" "db ! 3 ! 0 = 0"
      "DBL_OVERFLOW \<le> envelope_output (compressorMid p')"
      "FLT_OVERFLOW \<le> compressorStates p' 1"
    by blast
  have i: "envelope_output (compressorMid (OTT_Initialize 44100)) = 1"
    by (simp add: Initialize_compressorMid SetCompressorParameters_def InitializeCompressor_def)
  show ?thesis
    using hb b v m i unfolding pb_def ins_def outs_def by blast
qed

end
